theory Spec2Isabelle
  imports Main "HOL-Library.Word" "HOL-Library.Product_Lexorder"
begin

unbundle bit_operations_syntax

section \<open>Acknowledgment handling of the fleet server (cmd/fleet/handleAck.go)\<close>

text \<open>
  The development embeds the functions of \<^verbatim>\<open>handleAck.go\<close>: the codec
  \<^verbatim>\<open>parsePolicyAction\<close>, the reconciler \<^verbatim>\<open>_handlePolicyChange\<close>, the classifier
  \<^verbatim>\<open>_handleAckEvents\<close> and the HTTP entry points \<^verbatim>\<open>_handleAcks\<close> and
  \<^verbatim>\<open>handleAcks\<close>.  Go identifiers that start with an underscore are written with
  the prefix \<open>u_\<close>.  Go strings are byte strings, here \<^typ>\<open>string\<close>; \<^verbatim>\<open>int64\<close> is a
  64-bit word compared as a signed number; \<^verbatim>\<open>int\<close> is taken at 64 bits
  (\<^verbatim>\<open>strconv.IntSize = 64\<close>).
\<close>

type_synonym int64 = "64 word"
type_synonym byte = "8 word"

subsection \<open>Errors\<close>

text \<open>
  Go errors are values.  \<open>ErrEventAgentIdMismatch\<close> is declared in the source;
  \<open>context_Canceled\<close> is \<^verbatim>\<open>context.Canceled\<close>; the next four are what the parsing
  functions of the libraries return; \<open>OtherError\<close> stands for every error a
  collaborator (store, authentication, JSON decoding, response writer) may return.
\<close>

datatype error =
    ErrEventAgentIdMismatch
  | context_Canceled
  | NumError
  | InvalidByteError
  | ErrLength
  | ErrUUIDFormat
  | OtherError string

text \<open>The method \<^verbatim>\<open>Error()\<close>: the message of an error.\<close>

fun Error :: "error \<Rightarrow> string" where
  "Error ErrEventAgentIdMismatch = ''event agentId mismatch''"
| "Error context_Canceled = ''context canceled''"
| "Error NumError = ''strconv.Atoi: parsing failed''"
| "Error InvalidByteError = ''encoding/hex: invalid byte''"
| "Error ErrLength = ''encoding/hex: odd length hex string''"
| "Error ErrUUIDFormat = ''uuid: incorrect UUID format''"
| "Error (OtherError msg) = msg"

subsection \<open>Library functions the source calls\<close>

text \<open>
  \<^verbatim>\<open>strings.HasPrefix(s, prefix)\<close> is
  \<^verbatim>\<open>len(s) >= len(prefix) && s[0:len(prefix)] == prefix\<close>.
\<close>

definition strings_HasPrefix :: "string \<Rightarrow> string \<Rightarrow> bool" where
  "strings_HasPrefix s pre \<longleftrightarrow> length pre \<le> length s \<and> take (length pre) s = pre"

text \<open>
  \<^verbatim>\<open>strings.Split(s, sep)\<close> for a separator of one byte, the only use the source
  makes of it: the pieces between the occurrences of the separator, one more
  piece than there are occurrences, so the empty string gives one empty piece.
\<close>

fun strings_Split :: "string \<Rightarrow> char \<Rightarrow> string list" where
  "strings_Split [] sep = [[]]"
| "strings_Split (c # cs) sep =
     (if c = sep then [] # strings_Split cs sep
      else (case strings_Split cs sep of
              [] \<Rightarrow> [[c]]
            | piece # pieces \<Rightarrow> (c # piece) # pieces))"

text \<open>
  \<^verbatim>\<open>strconv.Atoi\<close>: an optional sign \<^verbatim>\<open>+\<close> or \<^verbatim>\<open>-\<close>, then at least one decimal
  digit and nothing else; the value must fit the type \<^verbatim>\<open>int\<close>.  \<open>digits\<close> is the
  loop over the bytes (\<^verbatim>\<open>ch -= '0'; if ch > 9 { syntax error }; n = n*10 + ch\<close>),
  on unbounded numbers; the range check of \<^verbatim>\<open>ParseInt\<close> follows it.
\<close>

definition isDigit :: "char \<Rightarrow> bool" where
  "isDigit c \<longleftrightarrow> 48 \<le> (of_char c :: nat) \<and> (of_char c :: nat) \<le> 57"

fun digits :: "string \<Rightarrow> nat \<Rightarrow> nat option" where
  "digits [] n = Some n"
| "digits (c # cs) n =
     (if isDigit c then digits cs (n * 10 + (of_char c - 48)) else None)"

definition Atoi :: "string \<Rightarrow> error + int64" where
  "Atoi s =
     (case s of
        [] \<Rightarrow> Inl NumError
      | c # cs \<Rightarrow>
          (let neg = (c = CHR ''-'');
               ds = (if c = CHR ''+'' \<or> c = CHR ''-'' then cs else s)
           in if ds = [] then Inl NumError
              else (case digits ds 0 of
                      None \<Rightarrow> Inl NumError
                    | Some n \<Rightarrow>
                        if neg then (if n \<le> 2 ^ 63 then Inr (word_of_int (- int n)) else Inl NumError)
                        else (if n < 2 ^ 63 then Inr (word_of_int (int n)) else Inl NumError))))"

text \<open>
  \<^verbatim>\<open>encoding/hex\<close>: \<open>fromHexChar\<close> accepts the digits and the letters a to f in
  either case; \<open>hex_Decode\<close> turns each pair of them into one byte.
\<close>

definition fromHexChar :: "char \<Rightarrow> byte option" where
  "fromHexChar c =
     (let n = (of_char c :: nat)
      in if 48 \<le> n \<and> n \<le> 57 then Some (of_nat (n - 48))
         else if 97 \<le> n \<and> n \<le> 102 then Some (of_nat (n - 97 + 10))
         else if 65 \<le> n \<and> n \<le> 70 then Some (of_nat (n - 65 + 10))
         else None)"

fun hex_Decode :: "string \<Rightarrow> error + byte list" where
  "hex_Decode [] = Inr []"
| "hex_Decode [c] = (case fromHexChar c of None \<Rightarrow> Inl InvalidByteError | Some x \<Rightarrow> Inl ErrLength)"
| "hex_Decode (a # b # rest) =
     (case fromHexChar a of
        None \<Rightarrow> Inl InvalidByteError
      | Some x \<Rightarrow>
          (case fromHexChar b of
             None \<Rightarrow> Inl InvalidByteError
           | Some y \<Rightarrow>
               (case hex_Decode rest of
                  Inl e \<Rightarrow> Inl e
                | Inr bs \<Rightarrow> Inr ((push_bit 4 x OR y) # bs))))"

text \<open>
  \<^verbatim>\<open>uuid.FromString\<close> of \<^verbatim>\<open>github.com/gofrs/uuid\<close> is \<^verbatim>\<open>UnmarshalText\<close>: it
  chooses a decoder by the length of the text.  The canonical form has 36 bytes,
  dashes at the offsets 8, 13, 18 and 23 and hexadecimal groups of 8, 4, 4, 4 and
  12 digits; the hash-like form is 32 hexadecimal digits; either may stand in
  braces or after the prefix \<^verbatim>\<open>urn:uuid:\<close>.  No decoder looks at the version or
  the variant of the UUID.
\<close>

type_synonym UUID = "byte list"

definition byteGroups :: "nat list" where
  "byteGroups = [8, 4, 4, 4, 12]"

fun decodeGroups :: "nat list \<Rightarrow> bool \<Rightarrow> string \<Rightarrow> error + byte list" where
  "decodeGroups [] first src = Inr []"
| "decodeGroups (g # gs) first src =
     (let src1 = (if first then src else drop 1 src)
      in case hex_Decode (take g src1) of
           Inl e \<Rightarrow> Inl e
         | Inr bs \<Rightarrow>
             (case decodeGroups gs False (drop g src1) of
                Inl e \<Rightarrow> Inl e
              | Inr more \<Rightarrow> Inr (bs @ more)))"

definition decodeCanonical :: "string \<Rightarrow> error + UUID" where
  "decodeCanonical t =
     (if t ! 8 \<noteq> CHR ''-'' \<or> t ! 13 \<noteq> CHR ''-'' \<or> t ! 18 \<noteq> CHR ''-'' \<or> t ! 23 \<noteq> CHR ''-''
      then Inl ErrUUIDFormat
      else decodeGroups byteGroups True t)"

definition decodeHashLike :: "string \<Rightarrow> error + UUID" where
  "decodeHashLike t = hex_Decode t"

definition decodePlain :: "string \<Rightarrow> error + UUID" where
  "decodePlain t =
     (if length t = 32 then decodeHashLike t
      else if length t = 36 then decodeCanonical t
      else Inl ErrUUIDFormat)"

definition decodeBraced :: "string \<Rightarrow> error + UUID" where
  "decodeBraced t =
     (let l = length t
      in if t ! 0 \<noteq> CHR ''{'' \<or> t ! (l - 1) \<noteq> CHR ''}'' then Inl ErrUUIDFormat
         else decodePlain (take (l - 2) (drop 1 t)))"

definition decodeURN :: "string \<Rightarrow> error + UUID" where
  "decodeURN t =
     (if take 9 t \<noteq> ''urn:uuid:'' then Inl ErrUUIDFormat
      else decodePlain (drop 9 t))"

definition uuid_FromString :: "string \<Rightarrow> error + UUID" where
  "uuid_FromString input =
     (let n = length input
      in if n = 32 then decodeHashLike input
         else if n = 34 \<or> n = 38 then decodeBraced input
         else if n = 36 then decodeCanonical input
         else if n = 41 \<or> n = 45 then decodeURN input
         else Inl ErrUUIDFormat)"

text \<open>The method \<^verbatim>\<open>Version()\<close> of a UUID: \<^verbatim>\<open>u[6] >> 4\<close>.\<close>

definition Version :: "UUID \<Rightarrow> byte" where
  "Version u = drop_bit 4 (u ! 6)"

subsection \<open>The policy action codec\<close>

record policyAction =
  policyId :: string
  revIdx :: int64
  coordIdx :: int64

text \<open>The zero value \<^verbatim>\<open>policyAction{}\<close>.\<close>

definition policyAction_zero :: policyAction where
  "policyAction_zero = \<lparr>policyId = [], revIdx = 0, coordIdx = 0\<rparr>"

definition parsePolicyAction :: "string \<Rightarrow> policyAction \<times> bool" where
  "parsePolicyAction actionId =
     (let split = strings_Split actionId (CHR '':'')
      in if length split \<noteq> 4 then (policyAction_zero, False)
         else if split ! 0 \<noteq> ''policy'' then (policyAction_zero, False)
         else (case uuid_FromString (split ! 1) of
                 Inl err \<Rightarrow> (policyAction_zero, False)
               | Inr u \<Rightarrow>
                   (case Atoi (split ! 2) of
                      Inl err \<Rightarrow> (policyAction_zero, False)
                    | Inr revIdx' \<Rightarrow>
                        (case Atoi (split ! 3) of
                           Inl err \<Rightarrow> (policyAction_zero, False)
                         | Inr coordIdx' \<Rightarrow>
                             (\<lparr>policyId = split ! 1, revIdx = revIdx', coordIdx = coordIdx'\<rparr>, True)))))"

subsection \<open>Data of the request\<close>

text \<open>
  The types \<^verbatim>\<open>model.Agent\<close>, \<^verbatim>\<open>Event\<close>, \<^verbatim>\<open>Action\<close>, \<^verbatim>\<open>AckRequest\<close> and
  \<^verbatim>\<open>bulk.BulkOp\<close> are declared outside this file; the records below have the
  fields the source reads or writes.  The field \<^verbatim>\<open>Id\<close> occurs in three of them and
  is suffixed with its type.
\<close>

record Agent =
  Id_Agent :: string
  PolicyId :: string
  PolicyRevisionIdx :: int64
  PolicyCoordinatorIdx :: int64

record Event =
  AgentId :: string
  ActionId :: string

record Action =
  Id_Action :: string
  Type :: string

record AckRequest =
  Events :: "Event list"

text \<open>
  The constants the source takes from other files: the saved-object type of an
  agent action, the names of the three agent fields and the name of the agents
  index.  Their values are not in the source, so they are parameters.
\<close>

record decls =
  AGENT_ACTION_SAVED_OBJECT_TYPE :: string
  FieldPolicyRevisionIdx :: string
  FieldPolicyCoordinatorIdx :: string
  FieldUpdatedAt :: string
  FleetAgents :: string

text \<open>
  A reading of the clock, the location it is shown in and the layout it is
  formatted with.  The text that \<^verbatim>\<open>Format\<close> yields is kept symbolic (\<open>JTime\<close>
  below): the calendar arithmetic of the \<^verbatim>\<open>time\<close> package is not part of the source.
\<close>

datatype location = Local | UTC_location

record time =
  instant :: int
  loc :: location

definition UTC :: "time \<Rightarrow> time" where
  "UTC t = t\<lparr>loc := UTC_location\<rparr>"

datatype layout = RFC3339 | RFC1123

text \<open>
  JSON values as \<^verbatim>\<open>json.Marshal\<close> receives them: a number, a formatted time, or
  an object, which is a Go map from names to values.
\<close>

datatype json =
    JInt int64
  | JTime time layout
  | JObj "string \<Rightarrow> json option"

record BulkOp =
  Id_BulkOp :: string
  Body :: json
  Index :: string

datatype Opt = WithRefresh

subsection \<open>Effects and collaborators\<close>

text \<open>
  Everything the handler does to the outside is appended to a trace, oldest
  first: probes of the action cache, point reads and bulk updates of the store,
  log entries, and what is written to the HTTP response.
\<close>

datatype effect =
    CacheGetAction string
  | StoreRead string string
  | StoreMUpdate "BulkOp list" "Opt list"
  | LogTrace string
  | LogError error nat string
  | HttpError string nat
  | ResponseWrite string

type_synonym trace = "effect list"

text \<open>
  The collaborators the source calls but does not define.  Each answer may depend
  on everything that happened before (the trace), which covers a store that
  changes under concurrent requests and a context that is cancelled at any
  moment: a cancelled call answers \<open>context_Canceled\<close>.
\<close>

record env =
  GetAction :: "trace \<Rightarrow> string \<Rightarrow> Action option"
  Read :: "trace \<Rightarrow> string \<Rightarrow> string \<Rightarrow> error + Action"
  MUpdate :: "trace \<Rightarrow> BulkOp list \<Rightarrow> Opt list \<Rightarrow> error option"
  Now :: "trace \<Rightarrow> time"
  authAgent :: "trace \<Rightarrow> string \<Rightarrow> error + Agent"
  ReadAll :: "trace \<Rightarrow> error + string"
  json_Unmarshal :: "string \<Rightarrow> error + AckRequest"
  Write :: "trace \<Rightarrow> string \<Rightarrow> error option"

subsection \<open>The reconciler\<close>

text \<open>
  The loop of \<^verbatim>\<open>_handlePolicyChange\<close> over the action ids, on the state
  \<open>(found, currRev, currCoord)\<close>.  The comparisons are those of \<^verbatim>\<open>int64\<close>:
  \<open>a <s b\<close> is the signed order on words.
\<close>

fun handlePolicyChange_loop ::
  "Agent \<Rightarrow> string list \<Rightarrow> bool \<times> int64 \<times> int64 \<Rightarrow> bool \<times> int64 \<times> int64" where
  "handlePolicyChange_loop agent [] st = st"
| "handlePolicyChange_loop agent (a # actionIds) (found, currRev, currCoord) =
     (let (action, ok) = parsePolicyAction a
      in if ok \<and> policyId action = PolicyId agent \<and>
            (currRev <s revIdx action \<or> (revIdx action = currRev \<and> currCoord <s coordIdx action))
         then handlePolicyChange_loop agent actionIds (True, revIdx action, coordIdx action)
         else handlePolicyChange_loop agent actionIds (found, currRev, currCoord))"

text \<open>
  \<^verbatim>\<open>json.Marshal\<close> cannot fail on a map of strings to numbers and strings, so the
  branch that returns its error is not reachable and the body is the object itself.
\<close>

definition u_handlePolicyChange ::
  "decls \<Rightarrow> env \<Rightarrow> Agent \<Rightarrow> string list \<Rightarrow> trace \<Rightarrow> error option \<times> trace" where
  "u_handlePolicyChange d e agent actionIds tr =
     (let (found, currRev, currCoord) =
            handlePolicyChange_loop agent actionIds
              (False, PolicyRevisionIdx agent, PolicyCoordinatorIdx agent)
      in if found then
           (let fields = [FieldPolicyRevisionIdx d \<mapsto> JInt currRev,
                          FieldPolicyCoordinatorIdx d \<mapsto> JInt currCoord];
                fields = fields(FieldUpdatedAt d \<mapsto> JTime (UTC (Now e tr)) RFC3339);
                source = JObj [''doc'' \<mapsto> JObj fields];
                updates = [\<lparr>Id_BulkOp = Id_Agent agent, Body = source, Index = FleetAgents d\<rparr>]
            in (MUpdate e tr updates [WithRefresh], tr @ [StoreMUpdate updates [WithRefresh]]))
         else (None, tr))"

subsection \<open>The classifier\<close>

text \<open>
  The loop of \<^verbatim>\<open>_handleAckEvents\<close> over the events, on the map \<open>m\<close> of actions by
  type and the list \<open>policyAcks\<close>.  It answers the first error, or the two
  collections, and the trace in either case.
\<close>

fun handleAckEvents_loop ::
  "decls \<Rightarrow> env \<Rightarrow> Agent \<Rightarrow> Event list \<Rightarrow> (string \<Rightarrow> Action list option) \<Rightarrow> string list \<Rightarrow> trace
    \<Rightarrow> (error + (string \<Rightarrow> Action list option) \<times> string list) \<times> trace" where
  "handleAckEvents_loop d e agent [] m policyAcks tr = (Inr (m, policyAcks), tr)"
| "handleAckEvents_loop d e agent (ev # events) m policyAcks tr =
     (if AgentId ev \<noteq> [] \<and> AgentId ev \<noteq> Id_Agent agent then (Inl ErrEventAgentIdMismatch, tr)
      else if strings_HasPrefix (ActionId ev) ''policy:''
      then handleAckEvents_loop d e agent events m (policyAcks @ [ActionId ev]) tr
      else
        (let tr1 = tr @ [CacheGetAction (ActionId ev)]
         in case GetAction e tr (ActionId ev) of
              Some action \<Rightarrow>
                (let actionList = (case m (Type action) of None \<Rightarrow> [] | Some l \<Rightarrow> l)
                 in handleAckEvents_loop d e agent events
                      (m(Type action \<mapsto> actionList @ [action])) policyAcks tr1)
            | None \<Rightarrow>
                (let tr2 = tr1 @ [StoreRead (AGENT_ACTION_SAVED_OBJECT_TYPE d) (ActionId ev)]
                 in case Read e tr1 (AGENT_ACTION_SAVED_OBJECT_TYPE d) (ActionId ev) of
                      Inl err \<Rightarrow> (Inl err, tr2)
                    | Inr action \<Rightarrow>
                        (let actionList = (case m (Type action) of None \<Rightarrow> [] | Some l \<Rightarrow> l)
                         in handleAckEvents_loop d e agent events
                              (m(Type action \<mapsto> actionList @ [action])) policyAcks tr2))))"

text \<open>
  \<^verbatim>\<open>policyAcks\<close> starts as the nil slice and \<^verbatim>\<open>append\<close> makes it non-nil, so
  \<^verbatim>\<open>policyAcks != nil\<close> says that it has an element.
\<close>

definition u_handleAckEvents ::
  "decls \<Rightarrow> env \<Rightarrow> Agent \<Rightarrow> Event list \<Rightarrow> trace \<Rightarrow> error option \<times> trace" where
  "u_handleAckEvents d e agent events tr =
     (case handleAckEvents_loop d e agent events Map.empty [] tr of
        (Inl err, tr1) \<Rightarrow> (Some err, tr1)
      | (Inr (m, policyAcks), tr1) \<Rightarrow>
          if policyAcks \<noteq> [] then
            (case u_handlePolicyChange d e agent policyAcks tr1 of
               (Some err, tr2) \<Rightarrow> (Some err, tr2)
             | (None, tr2) \<Rightarrow> (None, tr2))
          else (None, tr1))"

subsection \<open>The HTTP entry points\<close>

text \<open>
  \<^verbatim>\<open>_handleAcks\<close>: authenticate, read and decode the body, handle the events,
  write the fixed response.  The response \<^verbatim>\<open>AckResponse{"acks"}\<close> is marshalled to
  the text below; marshalling a struct of one string cannot fail.
\<close>

definition AckResponse_json :: string where
  "AckResponse_json = ''{\"action\":\"acks\"}''"

definition u_handleAcks :: "decls \<Rightarrow> env \<Rightarrow> string \<Rightarrow> trace \<Rightarrow> error option \<times> trace" where
  "u_handleAcks d e id' tr =
     (case authAgent e tr id' of
        Inl err \<Rightarrow> (Some err, tr)
      | Inr agent \<Rightarrow>
          (case ReadAll e tr of
             Inl err \<Rightarrow> (Some err, tr)
           | Inr raw \<Rightarrow>
               (case json_Unmarshal e raw of
                  Inl err \<Rightarrow> (Some err, tr)
                | Inr req \<Rightarrow>
                    (let tr1 = tr @ [LogTrace raw]
                     in case u_handleAckEvents d e agent (Events req) tr1 of
                          (Some err, tr2) \<Rightarrow> (Some err, tr2)
                        | (None, tr2) \<Rightarrow>
                            (let data = AckResponse_json
                             in case Write e tr2 data of
                                  Some err \<Rightarrow> (Some err, tr2 @ [ResponseWrite data])
                                | None \<Rightarrow> (None, tr2 @ [ResponseWrite data]))))))"

text \<open>\<^verbatim>\<open>ps.ByName\<close>: the value of the first parameter of that name, or the empty string.\<close>

fun ByName :: "(string \<times> string) list \<Rightarrow> string \<Rightarrow> string" where
  "ByName [] name = []"
| "ByName ((k, v) # ps) name = (if k = name then v else ByName ps name)"

definition StatusBadRequest :: nat where
  "StatusBadRequest = 400"

definition handleAcks :: "decls \<Rightarrow> env \<Rightarrow> (string \<times> string) list \<Rightarrow> trace \<Rightarrow> trace" where
  "handleAcks d e ps tr =
     (let id' = ByName ps ''id''
      in case u_handleAcks d e id' tr of
           (None, tr1) \<Rightarrow> tr1
         | (Some err, tr1) \<Rightarrow>
             (let code = StatusBadRequest;
                  tr2 = (if err \<noteq> context_Canceled then tr1 @ [LogError err code ''Fail ACK''] else tr1)
              in tr2 @ [HttpError (Error err) code]))"

section \<open>Notions used in the statements\<close>

subsection \<open>Positions and candidates\<close>

text \<open>
  A position \<open>(revision, coordinator)\<close> as a pair of integers, read from the two
  \<^verbatim>\<open>int64\<close> as signed numbers.  Pairs of integers carry the lexicographic order
  of the library, so \<open>p < q\<close> below is the lexicographic order on positions.
\<close>

definition pair :: "int64 \<Rightarrow> int64 \<Rightarrow> int \<times> int" where
  "pair r c = (sint r, sint c)"

definition agentPair :: "Agent \<Rightarrow> int \<times> int" where
  "agentPair agent = pair (PolicyRevisionIdx agent) (PolicyCoordinatorIdx agent)"

text \<open>The position a candidate identifier carries, when it parses.\<close>

definition pairOf :: "string \<Rightarrow> int \<times> int" where
  "pairOf a = pair (revIdx (fst (parsePolicyAction a))) (coordIdx (fst (parsePolicyAction a)))"

text \<open>A candidate matches the agent when it parses and names the agent's policy.\<close>

definition matches :: "Agent \<Rightarrow> string \<Rightarrow> bool" where
  "matches agent a \<longleftrightarrow>
     snd (parsePolicyAction a) \<and> policyId (fst (parsePolicyAction a)) = PolicyId agent"

text \<open>
  The positions of the eligible candidates of a batch: those that match the agent
  and lie strictly above the agent's position.
\<close>

definition eligible :: "Agent \<Rightarrow> string list \<Rightarrow> (int \<times> int) list" where
  "eligible agent actionIds =
     filter (\<lambda>p. agentPair agent < p) (map pairOf (filter (matches agent) actionIds))"

subsection \<open>Reading a trace\<close>

text \<open>The update of the agent's document that sets the position \<open>(r, c)\<close>.\<close>

definition updateOp :: "decls \<Rightarrow> env \<Rightarrow> Agent \<Rightarrow> trace \<Rightarrow> int64 \<Rightarrow> int64 \<Rightarrow> BulkOp" where
  "updateOp d e agent tr r c =
     \<lparr>Id_BulkOp = Id_Agent agent,
      Body = JObj [''doc'' \<mapsto> JObj ([FieldPolicyRevisionIdx d \<mapsto> JInt r,
                                       FieldPolicyCoordinatorIdx d \<mapsto> JInt c]
                                      (FieldUpdatedAt d \<mapsto> JTime (UTC (Now e tr)) RFC3339))],
      Index = FleetAgents d\<rparr>"

fun isWrite :: "effect \<Rightarrow> bool" where
  "isWrite (StoreMUpdate ops opts) = True"
| "isWrite ef = False"

fun isStoreRead :: "effect \<Rightarrow> bool" where
  "isStoreRead (StoreRead ty k) = True"
| "isStoreRead ef = False"

fun isLogError :: "effect \<Rightarrow> bool" where
  "isLogError (LogError err code msg) = True"
| "isLogError ef = False"

fun isHttpError :: "effect \<Rightarrow> bool" where
  "isHttpError (HttpError msg code) = True"
| "isHttpError ef = False"

text \<open>The identifiers a trace resolves, through the cache or through the store.\<close>

fun resolved :: "trace \<Rightarrow> string list" where
  "resolved [] = []"
| "resolved (CacheGetAction k # tr) = k # resolved tr"
| "resolved (StoreRead ty k # tr) = k # resolved tr"
| "resolved (ef # tr) = resolved tr"

text \<open>An event passes the integrity check of the classifier.\<close>

definition passes :: "Agent \<Rightarrow> Event \<Rightarrow> bool" where
  "passes agent ev \<longleftrightarrow> AgentId ev = [] \<or> AgentId ev = Id_Agent agent"

definition isPolicy :: "Event \<Rightarrow> bool" where
  "isPolicy ev \<longleftrightarrow> strings_HasPrefix (ActionId ev) ''policy:''"

text \<open>The group of a type in the map of actions, and the map after one more action.\<close>

definition addAction :: "(string \<Rightarrow> Action list option) \<Rightarrow> Action \<Rightarrow> (string \<Rightarrow> Action list option)" where
  "addAction m action =
     m(Type action \<mapsto> (case m (Type action) of None \<Rightarrow> [] | Some l \<Rightarrow> l) @ [action])"

subsection \<open>Texts of identifiers\<close>

text \<open>
  A text is a UUID of version 4 when it decodes and the version of the result is 4
  (RFC 4122: the high half of the seventh byte).
\<close>

definition isUUIDv4 :: "string \<Rightarrow> bool" where
  "isUUIDv4 s = (case uuid_FromString s of Inl err \<Rightarrow> False | Inr u \<Rightarrow> Version u = 4)"

text \<open>
  The number a string of decimal digits denotes, and the texts that denote a
  64-bit signed integer: an optional sign, at least one digit, nothing else, and a
  value from \<open>- 2 ^ 63\<close> up to \<open>2 ^ 63 - 1\<close>.
\<close>

definition decimal :: "string \<Rightarrow> nat" where
  "decimal ds = foldl (\<lambda>n c. n * 10 + (of_char c - 48)) 0 ds"

definition denotes :: "string \<Rightarrow> int \<Rightarrow> bool" where
  "denotes s v \<longleftrightarrow>
     (\<exists>ds. ds \<noteq> [] \<and> list_all isDigit ds \<and>
        (s = ds \<and> v = int (decimal ds) \<or>
         s = CHR ''+'' # ds \<and> v = int (decimal ds) \<or>
         s = CHR ''-'' # ds \<and> v = - int (decimal ds))) \<and>
     - (2 ^ 63) \<le> v \<and> v < 2 ^ 63"

text \<open>The text whose pieces between separators are given.\<close>

fun join :: "string list \<Rightarrow> char \<Rightarrow> string" where
  "join [] sep = []"
| "join [s] sep = s"
| "join (s # t # ss) sep = s @ sep # join (t # ss) sep"

subsection \<open>Sample inputs\<close>

definition decls0 :: decls where
  "decls0 = \<lparr>AGENT_ACTION_SAVED_OBJECT_TYPE = ''fleet-agent-actions'',
             FieldPolicyRevisionIdx = ''policy_revision_idx'',
             FieldPolicyCoordinatorIdx = ''policy_coordinator_idx'',
             FieldUpdatedAt = ''updated_at'',
             FleetAgents = ''.fleet-agents''\<rparr>"

text \<open>An agent bound to a policy, at revision 3 and coordinator 1.\<close>

definition policyP :: string where
  "policyP = ''f47ac10b-58cc-4372-a567-0e02b2c3d479''"

definition policyOther :: string where
  "policyOther = ''6ba7b810-9dad-11d1-80b4-00c04fd430c8''"

definition agentA1 :: Agent where
  "agentA1 = \<lparr>Id_Agent = ''A1'', PolicyId = policyP,
              PolicyRevisionIdx = 3, PolicyCoordinatorIdx = 1\<rparr>"

text \<open>
  Collaborators: an empty cache, a store that finds no action and accepts every
  update, a fixed clock, and a request of agent A1 with an empty batch.
\<close>

definition env0 :: env where
  "env0 = \<lparr>GetAction = (\<lambda>tr k. None),
           Read = (\<lambda>tr ty k. Inl (OtherError ''not found'')),
           MUpdate = (\<lambda>tr ops opts. None),
           Now = (\<lambda>tr. \<lparr>instant = 0, loc = Local\<rparr>),
           authAgent = (\<lambda>tr i. Inr agentA1),
           ReadAll = (\<lambda>tr. Inr ''{\"events\":[]}''),
           json_Unmarshal = (\<lambda>raw. Inr \<lparr>Events = []\<rparr>),
           Write = (\<lambda>tr data. None)\<rparr>"

text \<open>The same, with a cache that knows every action.\<close>

definition envCached :: env where
  "envCached = env0\<lparr>GetAction := (\<lambda>tr k. Some \<lparr>Id_Action = k, Type = ''POLICY_REASSIGN''\<rparr>)\<rparr>"

text \<open>The same as \<open>env0\<close>, with a store that knows every action.\<close>

definition envStored :: env where
  "envStored = env0\<lparr>Read := (\<lambda>tr ty k. Inr \<lparr>Id_Action = k, Type = ''UPGRADE''\<rparr>)\<rparr>"

text \<open>
  A request with one ordinary event, whose store read is cut off by the
  cancellation of the context.
\<close>

definition envCanceled :: env where
  "envCanceled = env0\<lparr>Read := (\<lambda>tr ty k. Inl context_Canceled),
                      ReadAll := (\<lambda>tr. Inr ''{\"events\":[{\"action_id\":\"a1\"}]}''),
                      json_Unmarshal := (\<lambda>raw. Inr \<lparr>Events = [\<lparr>AgentId = [], ActionId = ''a1''\<rparr>]\<rparr>)\<rparr>"

section \<open>The reconciler: lemmas\<close>

text \<open>The comparison of the loop is the lexicographic order on positions.\<close>

lemma pair_less_iff:
  "pair currRev currCoord < pair r c \<longleftrightarrow> currRev <s r \<or> (r = currRev \<and> currCoord <s c)"
  by (auto simp: pair_def less_prod_def word_sless_alt dest: signed_word_eqI)

lemma pair_inject: "pair r c = pair r' c' \<longleftrightarrow> r = r' \<and> c = c'"
  by (auto simp: pair_def dest: signed_word_eqI)

lemma loop_step:
  "handlePolicyChange_loop agent (a # xs) (f, r, c) =
     (if matches agent a \<and> pair r c < pairOf a
      then handlePolicyChange_loop agent xs
             (True, revIdx (fst (parsePolicyAction a)), coordIdx (fst (parsePolicyAction a)))
      else handlePolicyChange_loop agent xs (f, r, c))"
  by (cases "parsePolicyAction a") (auto simp: matches_def pairOf_def pair_less_iff)

lemma loop_max:
  "handlePolicyChange_loop agent xs (f, r, c) = (f', r', c') \<Longrightarrow>
     pair r' c' = Max (insert (pair r c) (set (map pairOf (filter (matches agent) xs)))) \<and>
     (f' \<longleftrightarrow> f \<or> pair r c < pair r' c')"
proof (induction xs arbitrary: f r c)
  case Nil
  then show ?case by simp
next
  case (Cons a xs)
  let ?M = "set (map pairOf (filter (matches agent) xs))"
  show ?case
  proof (cases "matches agent a \<and> pair r c < pairOf a")
    case True
    let ?r = "revIdx (fst (parsePolicyAction a))" and ?c = "coordIdx (fst (parsePolicyAction a))"
    from True Cons.prems
    have run: "handlePolicyChange_loop agent xs (True, ?r, ?c) = (f', r', c')"
      by (simp add: loop_step del: handlePolicyChange_loop.simps)
    from Cons.IH [OF run]
    have m: "pair r' c' = Max (insert (pair ?r ?c) ?M)" and f': "f'" by auto
    have pa: "pair ?r ?c = pairOf a" by (simp add: pairOf_def)
    have "Max (insert (pair r c) (insert (pairOf a) ?M)) = Max (insert (pairOf a) ?M)"
    proof -
      have "Max (insert (pair r c) (insert (pairOf a) ?M)) = max (pair r c) (Max (insert (pairOf a) ?M))"
        by (rule Max_insert) auto
      moreover have "pair r c \<le> Max (insert (pairOf a) ?M)"
        using True by (meson List.finite_set Max_ge finite_insert insertI1 less_imp_le order_trans)
      ultimately show ?thesis by (simp only: max_absorb2)
    qed
    moreover have "pair r c < pair r' c'"
    proof -
      have "pairOf a \<le> pair r' c'" unfolding m pa by (rule Max_ge) auto
      with True show ?thesis by auto
    qed
    ultimately show ?thesis using True m f' pa by simp
  next
    case False
    from False Cons.prems
    have run: "handlePolicyChange_loop agent xs (f, r, c) = (f', r', c')"
      by (auto simp add: loop_step simp del: handlePolicyChange_loop.simps split: if_splits)
    from Cons.IH [OF run]
    have m: "pair r' c' = Max (insert (pair r c) ?M)" and f': "f' \<longleftrightarrow> f \<or> pair r c < pair r' c'"
      by auto
    show ?thesis
    proof (cases "matches agent a")
      case True
      with False have le: "pairOf a \<le> pair r c" by auto
      have "Max (insert (pair r c) (insert (pairOf a) ?M)) = Max (insert (pairOf a) (insert (pair r c) ?M))"
        by (simp add: insert_commute)
      also have "\<dots> = max (pairOf a) (Max (insert (pair r c) ?M))"
        by (rule Max_insert) auto
      also have "\<dots> = Max (insert (pair r c) ?M)"
      proof -
        have "pair r c \<le> Max (insert (pair r c) ?M)" by (rule Max_ge) auto
        with le have "pairOf a \<le> Max (insert (pair r c) ?M)" by (rule order_trans)
        then show ?thesis by (rule max_absorb2)
      qed
      finally show ?thesis using True m f' by simp
    next
      case False
      then show ?thesis using m f' by simp
    qed
  qed
qed

text \<open>The outcome of the loop from the agent's position, in terms of the eligible candidates.\<close>

lemma loop_eligible:
  assumes run: "handlePolicyChange_loop agent xs
                  (False, PolicyRevisionIdx agent, PolicyCoordinatorIdx agent) = (f, r, c)"
  shows "f \<longleftrightarrow> eligible agent xs \<noteq> []"
    and "eligible agent xs \<noteq> [] \<Longrightarrow> pair r c = Max (set (eligible agent xs))"
    and "eligible agent xs = [] \<Longrightarrow> pair r c = agentPair agent"
proof -
  let ?p = "agentPair agent"
  let ?M = "set (map pairOf (filter (matches agent) xs))"
  let ?E = "set (eligible agent xs)"
  from loop_max [OF run]
  have m: "pair r c = Max (insert ?p ?M)" and f: "f \<longleftrightarrow> ?p < pair r c"
    by (simp_all add: agentPair_def)
  have E: "?E = {q \<in> ?M. ?p < q}" by (auto simp: eligible_def)
  have fin: "finite ?M" by simp
  have in_ins: "Max (insert ?p ?M) \<in> insert ?p ?M" by (rule Max_in) auto
  have ge: "\<And>q. q \<in> insert ?p ?M \<Longrightarrow> q \<le> Max (insert ?p ?M)" by (rule Max_ge) auto
  show fE: "f \<longleftrightarrow> eligible agent xs \<noteq> []"
  proof
    assume f
    with f m have "?p < Max (insert ?p ?M)" by simp
    with in_ins have "Max (insert ?p ?M) \<in> ?E" unfolding E by auto
    then show "eligible agent xs \<noteq> []" by auto
  next
    assume "eligible agent xs \<noteq> []"
    then obtain q where "q \<in> ?E" by (cases "eligible agent xs") auto
    then have q: "q \<in> ?M" "?p < q" unfolding E by auto
    from q(1) have "q \<in> insert ?p ?M" by (rule insertI2)
    then have "q \<le> Max (insert ?p ?M)" by (rule ge)
    with q(2) have "?p < Max (insert ?p ?M)" by (rule less_le_trans)
    with f m show f by simp
  qed
  show "pair r c = Max ?E" if ne: "eligible agent xs \<noteq> []"
  proof -
    from ne fE f m have lt: "?p < Max (insert ?p ?M)" by simp
    with in_ins have mem: "Max (insert ?p ?M) \<in> ?E" unfolding E by auto
    have "Max ?E = Max (insert ?p ?M)"
    proof (rule Max_eqI)
      show "finite ?E" by simp
      show "Max (insert ?p ?M) \<in> ?E" by (rule mem)
      fix y assume "y \<in> ?E"
      then have "y \<in> insert ?p ?M" unfolding E by auto
      then show "y \<le> Max (insert ?p ?M)" by (rule ge)
    qed
    with m show ?thesis by simp
  qed
  show "pair r c = ?p" if "eligible agent xs = []"
  proof -
    from that fE f have "\<not> ?p < pair r c" by simp
    moreover have "?p \<le> pair r c" unfolding m by (rule ge) simp
    ultimately show ?thesis by auto
  qed
qed

text \<open>What the reconciler does, in one equation.\<close>

lemma handlePolicyChange_eq:
  "u_handlePolicyChange d e agent xs tr =
     (case handlePolicyChange_loop agent xs
             (False, PolicyRevisionIdx agent, PolicyCoordinatorIdx agent) of
        (f, r, c) \<Rightarrow>
          if eligible agent xs = [] then (None, tr)
          else (MUpdate e tr [updateOp d e agent tr r c] [WithRefresh],
                tr @ [StoreMUpdate [updateOp d e agent tr r c] [WithRefresh]]))"
proof (cases "handlePolicyChange_loop agent xs
             (False, PolicyRevisionIdx agent, PolicyCoordinatorIdx agent)")
  case (fields f r c)
  from loop_eligible(1) [OF fields] have "f \<longleftrightarrow> eligible agent xs \<noteq> []" .
  then show ?thesis
    by (simp add: u_handlePolicyChange_def fields updateOp_def Let_def)
qed

text \<open>A candidate that does not match the agent leaves the loop's state as it is.\<close>

lemma loop_skip:
  "\<not> matches agent a \<Longrightarrow>
     handlePolicyChange_loop agent (xs @ a # ys) st = handlePolicyChange_loop agent (xs @ ys) st"
proof (induction xs arbitrary: st)
  case Nil
  then show ?case by (cases st) (simp add: loop_step del: handlePolicyChange_loop.simps)
next
  case (Cons x xs)
  then show ?case by (cases st) (simp add: loop_step del: handlePolicyChange_loop.simps)
qed

lemma eligible_skip:
  "\<not> matches agent a \<Longrightarrow> eligible agent (xs @ a # ys) = eligible agent (xs @ ys)"
  by (simp add: eligible_def)

lemma handlePolicyChange_skip:
  "\<not> matches agent a \<Longrightarrow>
     u_handlePolicyChange d e agent (xs @ a # ys) tr = u_handlePolicyChange d e agent (xs @ ys) tr"
  by (simp add: handlePolicyChange_eq loop_skip eligible_skip)

lemma handlePolicyChange_set:
  assumes "set ys = set xs"
  shows "u_handlePolicyChange d e agent ys tr = u_handlePolicyChange d e agent xs tr"
proof -
  obtain f r c where X: "handlePolicyChange_loop agent xs
      (False, PolicyRevisionIdx agent, PolicyCoordinatorIdx agent) = (f, r, c)"
    by (cases "handlePolicyChange_loop agent xs
      (False, PolicyRevisionIdx agent, PolicyCoordinatorIdx agent)") auto
  obtain f' r' c' where Y: "handlePolicyChange_loop agent ys
      (False, PolicyRevisionIdx agent, PolicyCoordinatorIdx agent) = (f', r', c')"
    by (cases "handlePolicyChange_loop agent ys
      (False, PolicyRevisionIdx agent, PolicyCoordinatorIdx agent)") auto
  from assms have E: "set (eligible agent ys) = set (eligible agent xs)"
    by (simp add: eligible_def)
  then have N: "eligible agent ys = [] \<longleftrightarrow> eligible agent xs = []"
    by (metis set_empty)
  show ?thesis
  proof (cases "eligible agent xs = []")
    case True
    with N show ?thesis by (simp add: handlePolicyChange_eq X Y)
  next
    case False
    with N have F: "eligible agent ys \<noteq> []" by simp
    from loop_eligible(2) [OF X False] loop_eligible(2) [OF Y F] E
    have "pair r' c' = pair r c" by simp
    then have "r' = r \<and> c' = c" by (simp add: pair_inject)
    with False F show ?thesis by (simp add: handlePolicyChange_eq X Y)
  qed
qed

subsection \<open>Sample candidates\<close>

lemmas parse_defs = parsePolicyAction_def uuid_FromString_def decodeCanonical_def byteGroups_def
  fromHexChar_def Atoi_def isDigit_def policyP_def policyOther_def

lemma sample_parse:
  "parsePolicyAction ''policy:f47ac10b-58cc-4372-a567-0e02b2c3d479:3:0'' = (\<lparr>policyId = policyP, revIdx = 3, coordIdx = 0\<rparr>, True)"
  "parsePolicyAction ''policy:f47ac10b-58cc-4372-a567-0e02b2c3d479:3:5'' = (\<lparr>policyId = policyP, revIdx = 3, coordIdx = 5\<rparr>, True)"
  "parsePolicyAction ''policy:f47ac10b-58cc-4372-a567-0e02b2c3d479:2:9'' = (\<lparr>policyId = policyP, revIdx = 2, coordIdx = 9\<rparr>, True)"
  "parsePolicyAction ''policy:f47ac10b-58cc-4372-a567-0e02b2c3d479:3:1'' = (\<lparr>policyId = policyP, revIdx = 3, coordIdx = 1\<rparr>, True)"
  "parsePolicyAction ''policy:6ba7b810-9dad-11d1-80b4-00c04fd430c8:9:9'' = (\<lparr>policyId = policyOther, revIdx = 9, coordIdx = 9\<rparr>, True)"
  "parsePolicyAction ''policy:F47AC10B-58CC-4372-A567-0E02B2C3D479:9:9'' = (\<lparr>policyId = ''F47AC10B-58CC-4372-A567-0E02B2C3D479'', revIdx = 9, coordIdx = 9\<rparr>, True)"
  by (simp_all add: parse_defs)

lemma sample_pairs:
  "pair 3 0 = (3, 0)" "pair 3 5 = (3, 5)" "pair 2 9 = (2, 9)" "pair 3 1 = (3, 1)" "pair 9 9 = (9, 9)"
  by (simp_all add: pair_def)

lemma sample_eligible:
  "eligible agentA1 [''policy:f47ac10b-58cc-4372-a567-0e02b2c3d479:3:0'',
      ''policy:f47ac10b-58cc-4372-a567-0e02b2c3d479:3:5'',
      ''policy:f47ac10b-58cc-4372-a567-0e02b2c3d479:2:9''] = [(3, 5)]"
  by (simp add: eligible_def matches_def pairOf_def agentPair_def agentA1_def sample_parse sample_pairs)

section \<open>The reconciler: claims\<close>

text \<open>
  Claim C1.  The reconciler writes only a position that lies strictly above the
  agent's current position in the lexicographic order, so its writes never move
  the position backward.  When no candidate of the batch is eligible it writes
  nothing and returns no error; in particular a batch whose matching candidates
  all tie with the agent's position writes nothing.  One step of the loop takes a
  candidate exactly when it parses, names the agent's policy, and has a greater
  revision, or the same revision and a greater coordinator, than the winner so far.
\<close>

theorem handlePolicyChange_never_backward:
  "(eligible agent actionIds = [] \<longrightarrow> u_handlePolicyChange d e agent actionIds tr = (None, tr)) \<and>
   (eligible agent actionIds \<noteq> [] \<longrightarrow>
      (\<exists>r c. agentPair agent < pair r c \<and>
         u_handlePolicyChange d e agent actionIds tr =
           (MUpdate e tr [updateOp d e agent tr r c] [WithRefresh],
            tr @ [StoreMUpdate [updateOp d e agent tr r c] [WithRefresh]]))) \<and>
   ((\<forall>a \<in> set actionIds. matches agent a \<longrightarrow> pairOf a = agentPair agent) \<longrightarrow>
      u_handlePolicyChange d e agent actionIds tr = (None, tr)) \<and>
   handlePolicyChange_loop agent [a] (found, winnerRev, winnerCoord) =
     (let action = fst (parsePolicyAction a)
      in if snd (parsePolicyAction a) \<and> policyId action = PolicyId agent \<and>
            (sint winnerRev < sint (revIdx action) \<or>
             sint (revIdx action) = sint winnerRev \<and> sint winnerCoord < sint (coordIdx action))
         then (True, revIdx action, coordIdx action)
         else (found, winnerRev, winnerCoord))"
proof (intro conjI impI)
  assume "eligible agent actionIds = []"
  then show "u_handlePolicyChange d e agent actionIds tr = (None, tr)"
    by (simp add: handlePolicyChange_eq split: prod.splits)
next
  assume ne: "eligible agent actionIds \<noteq> []"
  obtain f r c where run: "handlePolicyChange_loop agent actionIds
      (False, PolicyRevisionIdx agent, PolicyCoordinatorIdx agent) = (f, r, c)"
    by (cases "handlePolicyChange_loop agent actionIds
      (False, PolicyRevisionIdx agent, PolicyCoordinatorIdx agent)") auto
  have "pair r c \<in> set (eligible agent actionIds)"
    unfolding loop_eligible(2) [OF run ne] using ne by (intro Max_in) auto
  then have "agentPair agent < pair r c" by (simp add: eligible_def)
  moreover from ne have "u_handlePolicyChange d e agent actionIds tr =
      (MUpdate e tr [updateOp d e agent tr r c] [WithRefresh],
       tr @ [StoreMUpdate [updateOp d e agent tr r c] [WithRefresh]])"
    by (simp add: handlePolicyChange_eq run)
  ultimately show "\<exists>r c. agentPair agent < pair r c \<and>
         u_handlePolicyChange d e agent actionIds tr =
           (MUpdate e tr [updateOp d e agent tr r c] [WithRefresh],
            tr @ [StoreMUpdate [updateOp d e agent tr r c] [WithRefresh]])"
    by blast
next
  assume "\<forall>a \<in> set actionIds. matches agent a \<longrightarrow> pairOf a = agentPair agent"
  then have "eligible agent actionIds = []"
    by (auto simp: eligible_def filter_empty_conv)
  then show "u_handlePolicyChange d e agent actionIds tr = (None, tr)"
    by (simp add: handlePolicyChange_eq split: prod.splits)
next
  show "handlePolicyChange_loop agent [a] (found, winnerRev, winnerCoord) =
     (let action = fst (parsePolicyAction a)
      in if snd (parsePolicyAction a) \<and> policyId action = PolicyId agent \<and>
            (sint winnerRev < sint (revIdx action) \<or>
             sint (revIdx action) = sint winnerRev \<and> sint winnerCoord < sint (coordIdx action))
         then (True, revIdx action, coordIdx action)
         else (found, winnerRev, winnerCoord))"
    by (cases "parsePolicyAction a") (auto simp: word_sless_alt dest: signed_word_eqI)
qed

text \<open>
  The agent at (3, 1): the candidate (3, 1) ties and writes nothing, the candidate
  (3, 5) is written.
\<close>

theorem handlePolicyChange_never_backward_witness:
  "u_handlePolicyChange decls0 env0 agentA1 [''policy:f47ac10b-58cc-4372-a567-0e02b2c3d479:3:1''] [] = (None, []) \<and>
   (\<exists>r c. agentPair agentA1 < pair r c \<and>
      u_handlePolicyChange decls0 env0 agentA1 [''policy:f47ac10b-58cc-4372-a567-0e02b2c3d479:3:5''] [] =
        (MUpdate env0 [] [updateOp decls0 env0 agentA1 [] r c] [WithRefresh],
         [StoreMUpdate [updateOp decls0 env0 agentA1 [] r c] [WithRefresh]]))"
proof -
  have tie: "eligible agentA1 [''policy:f47ac10b-58cc-4372-a567-0e02b2c3d479:3:1''] = []"
    by (simp add: eligible_def matches_def pairOf_def agentPair_def agentA1_def sample_parse sample_pairs)
  have up: "eligible agentA1 [''policy:f47ac10b-58cc-4372-a567-0e02b2c3d479:3:5''] \<noteq> []"
    by (simp add: eligible_def matches_def pairOf_def agentPair_def agentA1_def sample_parse sample_pairs)
  show ?thesis
    using handlePolicyChange_never_backward
            [of agentA1 "[''policy:f47ac10b-58cc-4372-a567-0e02b2c3d479:3:1'']" decls0 env0 "[]"]
          handlePolicyChange_never_backward
            [of agentA1 "[''policy:f47ac10b-58cc-4372-a567-0e02b2c3d479:3:5'']" decls0 env0 "[]"]
          tie up
    by simp
qed

text \<open>
  Claim C2.  When the batch has an eligible candidate (one that parses, names the
  agent's policy and lies strictly above the agent's position), the position the
  reconciler writes is the lexicographic maximum of the positions of all eligible
  candidates of the batch.  Two batches with the same candidates, in any order,
  give the same result.
\<close>

theorem handlePolicyChange_writes_maximum:
  "(eligible agent actionIds \<noteq> [] \<longrightarrow>
      (\<exists>r c. pair r c = Max (set (eligible agent actionIds)) \<and>
         u_handlePolicyChange d e agent actionIds tr =
           (MUpdate e tr [updateOp d e agent tr r c] [WithRefresh],
            tr @ [StoreMUpdate [updateOp d e agent tr r c] [WithRefresh]]))) \<and>
   (set actionIds' = set actionIds \<longrightarrow>
      u_handlePolicyChange d e agent actionIds' tr = u_handlePolicyChange d e agent actionIds tr)"
proof (intro conjI impI)
  assume ne: "eligible agent actionIds \<noteq> []"
  obtain f r c where run: "handlePolicyChange_loop agent actionIds
      (False, PolicyRevisionIdx agent, PolicyCoordinatorIdx agent) = (f, r, c)"
    by (cases "handlePolicyChange_loop agent actionIds
      (False, PolicyRevisionIdx agent, PolicyCoordinatorIdx agent)") auto
  from ne have "u_handlePolicyChange d e agent actionIds tr =
      (MUpdate e tr [updateOp d e agent tr r c] [WithRefresh],
       tr @ [StoreMUpdate [updateOp d e agent tr r c] [WithRefresh]])"
    by (simp add: handlePolicyChange_eq run)
  with loop_eligible(2) [OF run ne]
  show "\<exists>r c. pair r c = Max (set (eligible agent actionIds)) \<and>
         u_handlePolicyChange d e agent actionIds tr =
           (MUpdate e tr [updateOp d e agent tr r c] [WithRefresh],
            tr @ [StoreMUpdate [updateOp d e agent tr r c] [WithRefresh]])"
    by blast
next
  assume "set actionIds' = set actionIds"
  then show "u_handlePolicyChange d e agent actionIds' tr = u_handlePolicyChange d e agent actionIds tr"
    by (rule handlePolicyChange_set)
qed

text \<open>
  The agent at (3, 1) with the candidates (3, 0), (3, 5), (2, 9) of its policy:
  the position written is (3, 5), also for the batch in reverse order.
\<close>

theorem handlePolicyChange_writes_maximum_witness:
  "u_handlePolicyChange decls0 env0 agentA1
     [''policy:f47ac10b-58cc-4372-a567-0e02b2c3d479:3:0'',
      ''policy:f47ac10b-58cc-4372-a567-0e02b2c3d479:3:5'',
      ''policy:f47ac10b-58cc-4372-a567-0e02b2c3d479:2:9''] [] =
     (None, [StoreMUpdate [updateOp decls0 env0 agentA1 [] 3 5] [WithRefresh]]) \<and>
   u_handlePolicyChange decls0 env0 agentA1
     [''policy:f47ac10b-58cc-4372-a567-0e02b2c3d479:2:9'',
      ''policy:f47ac10b-58cc-4372-a567-0e02b2c3d479:3:5'',
      ''policy:f47ac10b-58cc-4372-a567-0e02b2c3d479:3:0''] [] =
     (None, [StoreMUpdate [updateOp decls0 env0 agentA1 [] 3 5] [WithRefresh]])"
proof -
  let ?xs = "[''policy:f47ac10b-58cc-4372-a567-0e02b2c3d479:3:0'',
      ''policy:f47ac10b-58cc-4372-a567-0e02b2c3d479:3:5'',
      ''policy:f47ac10b-58cc-4372-a567-0e02b2c3d479:2:9'']"
  let ?ys = "[''policy:f47ac10b-58cc-4372-a567-0e02b2c3d479:2:9'',
      ''policy:f47ac10b-58cc-4372-a567-0e02b2c3d479:3:5'',
      ''policy:f47ac10b-58cc-4372-a567-0e02b2c3d479:3:0'']"
  have perm: "set ?ys = set ?xs" by auto
  from handlePolicyChange_writes_maximum [of agentA1 ?xs decls0 env0 "[]" ?ys] perm
  obtain r c where rc: "pair r c = Max (set (eligible agentA1 ?xs))"
    and run: "u_handlePolicyChange decls0 env0 agentA1 ?xs [] =
           (MUpdate env0 [] [updateOp decls0 env0 agentA1 [] r c] [WithRefresh],
            [] @ [StoreMUpdate [updateOp decls0 env0 agentA1 [] r c] [WithRefresh]])"
    and same: "u_handlePolicyChange decls0 env0 agentA1 ?ys [] = u_handlePolicyChange decls0 env0 agentA1 ?xs []"
    unfolding sample_eligible by auto
  from rc have "pair r c = pair 3 5" by (simp add: sample_eligible sample_pairs)
  then have "r = 3 \<and> c = 5" by (simp only: pair_inject)
  with run same show ?thesis by (simp add: env0_def)
qed

text \<open>
  Claim C5.  A candidate that parses but names another policy than the agent's is
  ignored, whatever its position: a step of the loop over it leaves the state as
  it is, the reconciler does the same with and without it anywhere in the batch,
  and alone it causes no write.
\<close>

theorem handlePolicyChange_other_policy_ignored:
  "snd (parsePolicyAction a) \<Longrightarrow> policyId (fst (parsePolicyAction a)) \<noteq> PolicyId agent \<Longrightarrow>
     handlePolicyChange_loop agent (a # actionIds) st = handlePolicyChange_loop agent actionIds st \<and>
     u_handlePolicyChange d e agent (xs @ a # ys) tr = u_handlePolicyChange d e agent (xs @ ys) tr \<and>
     u_handlePolicyChange d e agent [a] tr = (None, tr)"
proof -
  assume "snd (parsePolicyAction a)" and "policyId (fst (parsePolicyAction a)) \<noteq> PolicyId agent"
  then have nm: "\<not> matches agent a" by (simp add: matches_def)
  from nm have "handlePolicyChange_loop agent ([] @ a # actionIds) st = handlePolicyChange_loop agent ([] @ actionIds) st"
    by (rule loop_skip)
  moreover from nm have "u_handlePolicyChange d e agent (xs @ a # ys) tr = u_handlePolicyChange d e agent (xs @ ys) tr"
    by (rule handlePolicyChange_skip)
  moreover from nm have "eligible agent [a] = []" by (simp add: eligible_def)
  then have "u_handlePolicyChange d e agent [a] tr = (None, tr)"
    by (simp add: handlePolicyChange_eq split: prod.splits)
  ultimately show ?thesis by simp
qed

text \<open>A candidate of another policy at (9, 9), above the agent's (3, 1), writes nothing.\<close>

theorem handlePolicyChange_other_policy_ignored_witness:
  "snd (parsePolicyAction ''policy:6ba7b810-9dad-11d1-80b4-00c04fd430c8:9:9'') \<and>
   policyId (fst (parsePolicyAction ''policy:6ba7b810-9dad-11d1-80b4-00c04fd430c8:9:9'')) \<noteq> PolicyId agentA1 \<and>
   agentPair agentA1 < pairOf ''policy:6ba7b810-9dad-11d1-80b4-00c04fd430c8:9:9'' \<and>
   u_handlePolicyChange decls0 env0 agentA1 [''policy:6ba7b810-9dad-11d1-80b4-00c04fd430c8:9:9''] [] = (None, [])"
proof -
  have h1: "snd (parsePolicyAction ''policy:6ba7b810-9dad-11d1-80b4-00c04fd430c8:9:9'')"
    by (simp add: sample_parse)
  have h2: "policyId (fst (parsePolicyAction ''policy:6ba7b810-9dad-11d1-80b4-00c04fd430c8:9:9'')) \<noteq> PolicyId agentA1"
    by (simp add: sample_parse agentA1_def policyP_def policyOther_def)
  have h3: "agentPair agentA1 < pairOf ''policy:6ba7b810-9dad-11d1-80b4-00c04fd430c8:9:9''"
    by (simp add: pairOf_def agentPair_def agentA1_def sample_parse sample_pairs)
  from handlePolicyChange_other_policy_ignored [OF h1 h2, where d = decls0 and e = env0 and tr = "[]" and xs = "[]" and ys = "[]"] h1 h2 h3
  show ?thesis by blast
qed

text \<open>
  Claim C8.  When the loop of the reconciler ends with a winner, the reconciler
  calls the bulk update of the store once, whatever the number of candidates,
  with one operation and the refresh option.  The operation addresses the agent's
  own document id in the agents index; its body is the object \<open>doc\<close> whose fields
  are exactly the revision index, the coordinator index and the update time, the
  latter being the clock's reading in UTC under the RFC 3339 layout.
\<close>

theorem handlePolicyChange_single_update:
  "handlePolicyChange_loop agent actionIds
     (False, PolicyRevisionIdx agent, PolicyCoordinatorIdx agent) = (True, r, c) \<Longrightarrow>
   (\<exists>fields.
      u_handlePolicyChange d e agent actionIds tr =
        (MUpdate e tr [\<lparr>Id_BulkOp = Id_Agent agent, Body = JObj [''doc'' \<mapsto> JObj fields],
                         Index = FleetAgents d\<rparr>] [WithRefresh],
         tr @ [StoreMUpdate [\<lparr>Id_BulkOp = Id_Agent agent, Body = JObj [''doc'' \<mapsto> JObj fields],
                               Index = FleetAgents d\<rparr>] [WithRefresh]]) \<and>
      dom fields = {FieldPolicyRevisionIdx d, FieldPolicyCoordinatorIdx d, FieldUpdatedAt d} \<and>
      fields (FieldUpdatedAt d) = Some (JTime (UTC (Now e tr)) RFC3339) \<and>
      loc (UTC (Now e tr)) = UTC_location \<and>
      (FieldPolicyCoordinatorIdx d \<noteq> FieldUpdatedAt d \<longrightarrow>
         fields (FieldPolicyCoordinatorIdx d) = Some (JInt c)) \<and>
      (FieldPolicyRevisionIdx d \<noteq> FieldUpdatedAt d \<and>
       FieldPolicyRevisionIdx d \<noteq> FieldPolicyCoordinatorIdx d \<longrightarrow>
         fields (FieldPolicyRevisionIdx d) = Some (JInt r)))"
proof -
  assume run: "handlePolicyChange_loop agent actionIds
     (False, PolicyRevisionIdx agent, PolicyCoordinatorIdx agent) = (True, r, c)"
  let ?fields = "[FieldPolicyRevisionIdx d \<mapsto> JInt r, FieldPolicyCoordinatorIdx d \<mapsto> JInt c]
                   (FieldUpdatedAt d \<mapsto> JTime (UTC (Now e tr)) RFC3339)"
  have "u_handlePolicyChange d e agent actionIds tr =
        (MUpdate e tr [\<lparr>Id_BulkOp = Id_Agent agent, Body = JObj [''doc'' \<mapsto> JObj ?fields],
                         Index = FleetAgents d\<rparr>] [WithRefresh],
         tr @ [StoreMUpdate [\<lparr>Id_BulkOp = Id_Agent agent, Body = JObj [''doc'' \<mapsto> JObj ?fields],
                               Index = FleetAgents d\<rparr>] [WithRefresh]])"
    by (simp add: u_handlePolicyChange_def run Let_def)
  moreover have "dom ?fields = {FieldPolicyRevisionIdx d, FieldPolicyCoordinatorIdx d, FieldUpdatedAt d}"
    by auto
  moreover have "?fields (FieldUpdatedAt d) = Some (JTime (UTC (Now e tr)) RFC3339)"
    by simp
  moreover have "loc (UTC (Now e tr)) = UTC_location"
    by (simp add: UTC_def)
  moreover have "FieldPolicyCoordinatorIdx d \<noteq> FieldUpdatedAt d \<longrightarrow>
         ?fields (FieldPolicyCoordinatorIdx d) = Some (JInt c)"
    by simp
  moreover have "FieldPolicyRevisionIdx d \<noteq> FieldUpdatedAt d \<and>
       FieldPolicyRevisionIdx d \<noteq> FieldPolicyCoordinatorIdx d \<longrightarrow>
         ?fields (FieldPolicyRevisionIdx d) = Some (JInt r)"
    by simp
  ultimately show ?thesis by blast
qed

text \<open>
  The agent A1 acknowledging a candidate of its policy at (3, 5) and one of another
  policy at (9, 9): one update, of the three fields, to (3, 5).
\<close>

lemma sample_loop:
  "handlePolicyChange_loop agentA1
     [''policy:f47ac10b-58cc-4372-a567-0e02b2c3d479:3:5'',
      ''policy:6ba7b810-9dad-11d1-80b4-00c04fd430c8:9:9'']
     (False, PolicyRevisionIdx agentA1, PolicyCoordinatorIdx agentA1) = (True, 3, 5)"
  by (simp add: sample_parse agentA1_def policyP_def policyOther_def word_sless_alt)

theorem handlePolicyChange_single_update_witness:
  "\<exists>fields.
      u_handlePolicyChange decls0 env0 agentA1
        [''policy:f47ac10b-58cc-4372-a567-0e02b2c3d479:3:5'',
         ''policy:6ba7b810-9dad-11d1-80b4-00c04fd430c8:9:9''] [] =
        (None, [StoreMUpdate [\<lparr>Id_BulkOp = ''A1'', Body = JObj [''doc'' \<mapsto> JObj fields],
                               Index = ''.fleet-agents''\<rparr>] [WithRefresh]]) \<and>
      dom fields = {''policy_revision_idx'', ''policy_coordinator_idx'', ''updated_at''} \<and>
      fields ''updated_at'' = Some (JTime \<lparr>instant = 0, loc = UTC_location\<rparr> RFC3339) \<and>
      fields ''policy_coordinator_idx'' = Some (JInt 5) \<and>
      fields ''policy_revision_idx'' = Some (JInt 3)"
  using handlePolicyChange_single_update [OF sample_loop, of decls0 env0 "[]"]
  by (simp add: decls0_def env0_def agentA1_def UTC_def)

text \<open>The policy id of a parsed identifier is its second segment, as it stands.\<close>

lemma parsePolicyAction_policyId:
  "snd (parsePolicyAction a) \<Longrightarrow> policyId (fst (parsePolicyAction a)) = strings_Split a (CHR '':'') ! 1"
  by (auto simp: parsePolicyAction_def Let_def split: if_splits sum.splits)

text \<open>
  Claim C10.  The codec returns the second segment of the identifier unchanged as
  the policy id, and the reconciler compares it with the agent's policy id as a
  string.  So an identifier that parses, whose policy segment decodes to the same
  UUID as the agent's policy id but is another text (upper-case digits, say), is
  not eligible: alone it causes no write, and the reconciler does the same with
  and without it anywhere in a batch.
\<close>

theorem handlePolicyChange_textual_form:
  "snd (parsePolicyAction a) \<Longrightarrow>
   uuid_FromString (policyId (fst (parsePolicyAction a))) = uuid_FromString (PolicyId agent) \<Longrightarrow>
   policyId (fst (parsePolicyAction a)) \<noteq> PolicyId agent \<Longrightarrow>
     policyId (fst (parsePolicyAction a)) = strings_Split a (CHR '':'') ! 1 \<and>
     eligible agent [a] = [] \<and>
     u_handlePolicyChange d e agent [a] tr = (None, tr) \<and>
     u_handlePolicyChange d e agent (xs @ a # ys) tr = u_handlePolicyChange d e agent (xs @ ys) tr"
proof -
  assume ok: "snd (parsePolicyAction a)"
    and ne: "policyId (fst (parsePolicyAction a)) \<noteq> PolicyId agent"
  from ne have nm: "\<not> matches agent a" by (simp add: matches_def)
  then have el: "eligible agent [a] = []" by (simp add: eligible_def)
  then have "u_handlePolicyChange d e agent [a] tr = (None, tr)"
    by (simp add: handlePolicyChange_eq split: prod.splits)
  moreover from nm
  have "u_handlePolicyChange d e agent (xs @ a # ys) tr = u_handlePolicyChange d e agent (xs @ ys) tr"
    by (rule handlePolicyChange_skip)
  ultimately show ?thesis using parsePolicyAction_policyId [OF ok] el by simp
qed

text \<open>
  The policy id of agent A1 in upper case: the identifier parses, both texts decode
  to the same UUID, and nothing is written although (9, 9) lies above (3, 1).
\<close>

theorem handlePolicyChange_textual_form_witness:
  "snd (parsePolicyAction ''policy:F47AC10B-58CC-4372-A567-0E02B2C3D479:9:9'') \<and>
   uuid_FromString ''F47AC10B-58CC-4372-A567-0E02B2C3D479'' = uuid_FromString (PolicyId agentA1) \<and>
   policyId (fst (parsePolicyAction ''policy:F47AC10B-58CC-4372-A567-0E02B2C3D479:9:9'')) =
     ''F47AC10B-58CC-4372-A567-0E02B2C3D479'' \<and>
   u_handlePolicyChange decls0 env0 agentA1 [''policy:F47AC10B-58CC-4372-A567-0E02B2C3D479:9:9''] [] = (None, [])"
proof -
  let ?a = "''policy:F47AC10B-58CC-4372-A567-0E02B2C3D479:9:9''"
  have h1: "snd (parsePolicyAction ?a)" by (simp add: sample_parse)
  have same: "uuid_FromString ''F47AC10B-58CC-4372-A567-0E02B2C3D479'' = uuid_FromString (PolicyId agentA1)"
    by (simp add: agentA1_def policyP_def uuid_FromString_def decodeCanonical_def byteGroups_def fromHexChar_def)
  have h2: "uuid_FromString (policyId (fst (parsePolicyAction ?a))) = uuid_FromString (PolicyId agentA1)"
    unfolding sample_parse using same by simp
  have h3: "policyId (fst (parsePolicyAction ?a)) \<noteq> PolicyId agentA1"
    by (simp add: sample_parse agentA1_def policyP_def)
  from handlePolicyChange_textual_form [OF h1 h2 h3, where d = decls0 and e = env0 and tr = "[]"
      and xs = "[]" and ys = "[]"] h1 same
  show ?thesis by (simp add: sample_parse)
qed

section \<open>The classifier: lemmas\<close>

text \<open>One turn of the loop of the classifier, by the case the event falls in.\<close>

lemma ackLoop_step:
  "handleAckEvents_loop d e agent (ev # events) m policyAcks tr =
     (if \<not> passes agent ev then (Inl ErrEventAgentIdMismatch, tr)
      else if isPolicy ev then handleAckEvents_loop d e agent events m (policyAcks @ [ActionId ev]) tr
      else (case GetAction e tr (ActionId ev) of
              Some action \<Rightarrow>
                handleAckEvents_loop d e agent events (addAction m action) policyAcks
                  (tr @ [CacheGetAction (ActionId ev)])
            | None \<Rightarrow>
                (case Read e (tr @ [CacheGetAction (ActionId ev)]) (AGENT_ACTION_SAVED_OBJECT_TYPE d) (ActionId ev) of
                   Inl err \<Rightarrow>
                     (Inl err, tr @ [CacheGetAction (ActionId ev),
                                     StoreRead (AGENT_ACTION_SAVED_OBJECT_TYPE d) (ActionId ev)])
                 | Inr action \<Rightarrow>
                     handleAckEvents_loop d e agent events (addAction m action) policyAcks
                       (tr @ [CacheGetAction (ActionId ev),
                              StoreRead (AGENT_ACTION_SAVED_OBJECT_TYPE d) (ActionId ev)]))))"
  by (simp add: passes_def isPolicy_def addAction_def Let_def split: option.splits sum.splits)

lemma ackLoop_append:
  "handleAckEvents_loop d e agent (xs @ ys) m pa tr =
     (case handleAckEvents_loop d e agent xs m pa tr of
        (Inl err, tr1) \<Rightarrow> (Inl err, tr1)
      | (Inr (m1, pa1), tr1) \<Rightarrow> handleAckEvents_loop d e agent ys m1 pa1 tr1)"
proof (induction xs arbitrary: m pa tr)
  case Nil
  show ?case by simp
next
  case (Cons ev xs)
  show ?case
    by (simp add: ackLoop_step Cons.IH del: handleAckEvents_loop.simps split: option.splits sum.splits)
qed

text \<open>What the loop adds to the trace: probes and reads of ordinary identifiers only.\<close>

lemma ackLoop_trace:
  "handleAckEvents_loop d e agent events m pa tr = (res, tr') \<Longrightarrow>
     \<exists>new. tr' = tr @ new \<and> (\<forall>ef \<in> set new. \<not> isWrite ef) \<and>
       (\<forall>k \<in> set (resolved new). \<not> strings_HasPrefix k ''policy:'')"
proof (induction events arbitrary: m pa tr)
  case Nil
  then show ?case by simp
next
  case (Cons ev events)
  show ?case
  proof (cases "\<not> passes agent ev")
    case True
    with Cons.prems show ?thesis by (simp add: ackLoop_step del: handleAckEvents_loop.simps)
  next
    case pass: False
    show ?thesis
    proof (cases "isPolicy ev")
      case True
      with pass Cons.prems
      have "handleAckEvents_loop d e agent events m (pa @ [ActionId ev]) tr = (res, tr')"
        by (simp add: ackLoop_step del: handleAckEvents_loop.simps)
      from Cons.IH [OF this] show ?thesis .
    next
      case np: False
      then have k: "\<not> strings_HasPrefix (ActionId ev) ''policy:''" by (simp add: isPolicy_def)
      let ?T = "AGENT_ACTION_SAVED_OBJECT_TYPE d"
      show ?thesis
      proof (cases "GetAction e tr (ActionId ev)")
        case (Some action)
        with pass np Cons.prems
        have "handleAckEvents_loop d e agent events (addAction m action) pa
                 (tr @ [CacheGetAction (ActionId ev)]) = (res, tr')"
          by (simp add: ackLoop_step del: handleAckEvents_loop.simps)
        from Cons.IH [OF this] obtain new where
          "tr' = (tr @ [CacheGetAction (ActionId ev)]) @ new" "\<forall>ef \<in> set new. \<not> isWrite ef"
          "\<forall>k \<in> set (resolved new). \<not> strings_HasPrefix k ''policy:''" by blast
        with k have "tr' = tr @ (CacheGetAction (ActionId ev) # new) \<and>
           (\<forall>ef \<in> set (CacheGetAction (ActionId ev) # new). \<not> isWrite ef) \<and>
           (\<forall>k \<in> set (resolved (CacheGetAction (ActionId ev) # new)). \<not> strings_HasPrefix k ''policy:'')"
          by simp
        then show ?thesis by blast
      next
        case None
        show ?thesis
        proof (cases "Read e (tr @ [CacheGetAction (ActionId ev)]) ?T (ActionId ev)")
          case (Inl err)
          with None pass np Cons.prems
          have "tr' = tr @ [CacheGetAction (ActionId ev), StoreRead ?T (ActionId ev)]"
            by (simp add: ackLoop_step del: handleAckEvents_loop.simps)
          with k have "tr' = tr @ [CacheGetAction (ActionId ev), StoreRead ?T (ActionId ev)] \<and>
             (\<forall>ef \<in> set [CacheGetAction (ActionId ev), StoreRead ?T (ActionId ev)]. \<not> isWrite ef) \<and>
             (\<forall>k \<in> set (resolved [CacheGetAction (ActionId ev), StoreRead ?T (ActionId ev)]).
                 \<not> strings_HasPrefix k ''policy:'')"
            by simp
          then show ?thesis by blast
        next
          case (Inr action)
          with None pass np Cons.prems
          have "handleAckEvents_loop d e agent events (addAction m action) pa
                 (tr @ [CacheGetAction (ActionId ev), StoreRead ?T (ActionId ev)]) = (res, tr')"
            by (simp add: ackLoop_step del: handleAckEvents_loop.simps)
          from Cons.IH [OF this] obtain new where
            "tr' = (tr @ [CacheGetAction (ActionId ev), StoreRead ?T (ActionId ev)]) @ new"
            "\<forall>ef \<in> set new. \<not> isWrite ef"
            "\<forall>k \<in> set (resolved new). \<not> strings_HasPrefix k ''policy:''" by blast
          with k have "tr' = tr @ (CacheGetAction (ActionId ev) # StoreRead ?T (ActionId ev) # new) \<and>
             (\<forall>ef \<in> set (CacheGetAction (ActionId ev) # StoreRead ?T (ActionId ev) # new). \<not> isWrite ef) \<and>
             (\<forall>k \<in> set (resolved (CacheGetAction (ActionId ev) # StoreRead ?T (ActionId ev) # new)).
                 \<not> strings_HasPrefix k ''policy:'')"
            by simp
          then show ?thesis by blast
        qed
      qed
    qed
  qed
qed

text \<open>An error of the loop is the mismatch of the check or the error of a store read.\<close>

lemma ackLoop_error:
  "handleAckEvents_loop d e agent events m pa tr = (Inl err, tr') \<Longrightarrow>
     (err = ErrEventAgentIdMismatch \<and> (\<exists>ev \<in> set events. \<not> passes agent ev)) \<or>
     (\<exists>h k. Read e h (AGENT_ACTION_SAVED_OBJECT_TYPE d) k = Inl err)"
proof (induction events arbitrary: m pa tr)
  case Nil
  then show ?case by simp
next
  case (Cons ev events)
  from Cons.prems show ?case
    by (auto simp add: ackLoop_step simp del: handleAckEvents_loop.simps
          split: if_splits option.splits sum.splits dest: Cons.IH)
qed

lemma ackLoop_mismatch:
  "\<exists>ev \<in> set events. \<not> passes agent ev \<Longrightarrow>
     \<exists>err tr'. handleAckEvents_loop d e agent events m pa tr = (Inl err, tr')"
proof (induction events arbitrary: m pa tr)
  case Nil
  then show ?case by simp
next
  case (Cons ev events)
  show ?case
  proof (cases "\<not> passes agent ev")
    case True
    then show ?thesis by (simp add: ackLoop_step del: handleAckEvents_loop.simps)
  next
    case False
    with Cons.prems have "\<exists>ev \<in> set events. \<not> passes agent ev" by simp
    from Cons.IH [OF this] False show ?thesis
      by (simp add: ackLoop_step del: handleAckEvents_loop.simps split: option.splits sum.splits)
  qed
qed

lemma ackLoop_policyAcks:
  "handleAckEvents_loop d e agent events m pa tr = (Inr (m', pa'), tr') \<Longrightarrow>
     pa' = pa @ map ActionId (filter isPolicy events)"
proof (induction events arbitrary: m pa tr)
  case Nil
  then show ?case by simp
next
  case (Cons ev events)
  from Cons.prems show ?case
    by (auto simp add: ackLoop_step simp del: handleAckEvents_loop.simps
          split: if_splits option.splits sum.splits dest: Cons.IH)
qed

lemma ackLoop_all_policy:
  "\<forall>ev \<in> set events. passes agent ev \<and> isPolicy ev \<Longrightarrow>
     handleAckEvents_loop d e agent events m pa tr = (Inr (m, pa @ map ActionId events), tr)"
  by (induction events arbitrary: pa) (simp_all add: ackLoop_step del: handleAckEvents_loop.simps(2))


lemma resolved_append: "resolved (xs @ ys) = resolved xs @ resolved ys"
  by (induction xs rule: resolved.induct) simp_all

text \<open>The classifier as a whole, by the outcome of its loop.\<close>

lemma handleAckEvents_Inl:
  "handleAckEvents_loop d e agent events Map.empty [] tr = (Inl err, tr1) \<Longrightarrow>
     u_handleAckEvents d e agent events tr = (Some err, tr1)"
  by (simp add: u_handleAckEvents_def)

lemma handleAckEvents_Inr:
  "handleAckEvents_loop d e agent events Map.empty [] tr = (Inr (m, pa), tr1) \<Longrightarrow>
     u_handleAckEvents d e agent events tr =
       (if pa \<noteq> [] then u_handlePolicyChange d e agent pa tr1 else (None, tr1))"
  by (cases "u_handlePolicyChange d e agent pa tr1")
     (auto simp: u_handleAckEvents_def split: option.splits)

text \<open>A batch of policy events only: the loop touches nothing and collects the identifiers.\<close>

lemma ackLoop_policy_only:
  "\<forall>ev \<in> set events. isPolicy ev \<Longrightarrow>
     handleAckEvents_loop d e agent events m pa tr =
       (if \<forall>ev \<in> set events. passes agent ev then Inr (m, pa @ map ActionId events)
        else Inl ErrEventAgentIdMismatch, tr)"
  by (induction events arbitrary: pa) (simp_all add: ackLoop_step del: handleAckEvents_loop.simps(2))


lemma handlePolicyChange_trace:
  "u_handlePolicyChange d e agent actionIds tr = (res, tr') \<Longrightarrow>
     \<exists>new. tr' = tr @ new \<and> resolved new = []"
  by (auto simp: handlePolicyChange_eq split: prod.splits if_splits)

lemma handleAckEvents_trace:
  assumes "u_handleAckEvents d e agent events tr = (res, tr')"
  shows "\<exists>new. tr' = tr @ new \<and> (\<forall>k \<in> set (resolved new). \<not> strings_HasPrefix k ''policy:'')"
proof -
  obtain r tr1 where run: "handleAckEvents_loop d e agent events Map.empty [] tr = (r, tr1)"
    by (cases "handleAckEvents_loop d e agent events Map.empty [] tr") auto
  from ackLoop_trace [OF run] obtain new1 where
    n1: "tr1 = tr @ new1" "\<forall>k \<in> set (resolved new1). \<not> strings_HasPrefix k ''policy:''" by blast
  show ?thesis
  proof (cases r)
    case (Inl err)
    with run assms n1 show ?thesis by (auto simp: handleAckEvents_Inl)
  next
    case (Inr mp)
    obtain m pa where mp: "mp = (m, pa)" by (cases mp) auto
    show ?thesis
    proof (cases "pa = []")
      case True
      with run assms n1 Inr mp show ?thesis by (auto simp: handleAckEvents_Inr)
    next
      case False
      with run assms Inr mp have "u_handlePolicyChange d e agent pa tr1 = (res, tr')"
        by (simp add: handleAckEvents_Inr)
      from handlePolicyChange_trace [OF this] obtain new2 where
        "tr' = tr1 @ new2" "resolved new2 = []" by blast
      with n1 have "tr' = tr @ (new1 @ new2) \<and>
          (\<forall>k \<in> set (resolved (new1 @ new2)). \<not> strings_HasPrefix k ''policy:'')"
        by (simp add: resolved_append)
      then show ?thesis by blast
    qed
  qed
qed

lemma eligible_unparseable:
  "\<forall>a \<in> set actionIds. \<not> snd (parsePolicyAction a) \<Longrightarrow> eligible agent actionIds = []"
  by (auto simp: eligible_def filter_empty_conv matches_def)



section \<open>The classifier: claims\<close>




text \<open>
  Claim C6, as amended.  The classifier never resolves an identifier with the
  prefix \<open>policy:\<close>, neither through the cache nor through the store; when its loop
  completes, the candidates handed to the reconciler are the identifiers of the
  events with that prefix, in order; the reconciler does the same with and without
  a candidate that fails to parse.  A batch whose events all carry unparseable
  identifiers with the prefix touches nothing: it succeeds when every event passes
  the integrity check on the agent id, and fails with the mismatch error otherwise.
\<close>

theorem handleAckEvents_policy_prefix:
  "(u_handleAckEvents d e agent events tr = (res, tr') \<longrightarrow>
      (\<exists>new. tr' = tr @ new \<and> (\<forall>k \<in> set (resolved new). \<not> strings_HasPrefix k ''policy:''))) \<and>
   (handleAckEvents_loop d e agent events Map.empty [] tr = (Inr (m, policyAcks), tr1) \<longrightarrow>
      policyAcks = map ActionId (filter isPolicy events)) \<and>
   (\<not> snd (parsePolicyAction a) \<longrightarrow>
      u_handlePolicyChange d e agent (xs @ a # ys) tr = u_handlePolicyChange d e agent (xs @ ys) tr) \<and>
   ((\<forall>ev \<in> set events. isPolicy ev \<and> \<not> snd (parsePolicyAction (ActionId ev))) \<longrightarrow>
      u_handleAckEvents d e agent events tr =
        (if \<forall>ev \<in> set events. passes agent ev then None else Some ErrEventAgentIdMismatch, tr))"
proof (intro conjI impI)
  assume "u_handleAckEvents d e agent events tr = (res, tr')"
  then show "\<exists>new. tr' = tr @ new \<and> (\<forall>k \<in> set (resolved new). \<not> strings_HasPrefix k ''policy:'')"
    by (rule handleAckEvents_trace)
next
  assume "handleAckEvents_loop d e agent events Map.empty [] tr = (Inr (m, policyAcks), tr1)"
  from ackLoop_policyAcks [OF this] show "policyAcks = map ActionId (filter isPolicy events)"
    by simp
next
  assume "\<not> snd (parsePolicyAction a)"
  then have "\<not> matches agent a" by (simp add: matches_def)
  then show "u_handlePolicyChange d e agent (xs @ a # ys) tr = u_handlePolicyChange d e agent (xs @ ys) tr"
    by (rule handlePolicyChange_skip)
next
  assume all: "\<forall>ev \<in> set events. isPolicy ev \<and> \<not> snd (parsePolicyAction (ActionId ev))"
  then have pol: "\<forall>ev \<in> set events. isPolicy ev" by simp
  note run = ackLoop_policy_only [OF pol, of d e agent Map.empty "[]" tr]
  show "u_handleAckEvents d e agent events tr =
        (if \<forall>ev \<in> set events. passes agent ev then None else Some ErrEventAgentIdMismatch, tr)"
  proof (cases "\<forall>ev \<in> set events. passes agent ev")
    case True
    with run have r: "handleAckEvents_loop d e agent events Map.empty [] tr =
        (Inr (Map.empty, map ActionId events), tr)" by simp
    from all have "eligible agent (map ActionId events) = []"
      by (intro eligible_unparseable) simp
    then have "u_handlePolicyChange d e agent (map ActionId events) tr = (None, tr)"
      by (simp add: handlePolicyChange_eq split: prod.splits)
    with True show ?thesis by (simp add: handleAckEvents_Inr [OF r])
  next
    case False
    with run have "handleAckEvents_loop d e agent events Map.empty [] tr =
        (Inl ErrEventAgentIdMismatch, tr)" by simp
    from handleAckEvents_Inl [OF this] False show ?thesis by simp
  qed
qed

text \<open>Two unparseable policy identifiers, one without agent id and one of agent A1.\<close>

theorem handleAckEvents_policy_prefix_witness:
  "u_handleAckEvents decls0 env0 agentA1
     [\<lparr>AgentId = [], ActionId = ''policy:bogus''\<rparr>, \<lparr>AgentId = ''A1'', ActionId = ''policy:1:2:3''\<rparr>] [] = (None, [])"
proof -
  let ?evs = "[\<lparr>AgentId = [], ActionId = ''policy:bogus''\<rparr>, \<lparr>AgentId = ''A1'', ActionId = ''policy:1:2:3''\<rparr>]"
  have h: "\<forall>ev \<in> set ?evs. isPolicy ev \<and> \<not> snd (parsePolicyAction (ActionId ev))"
    by (simp add: isPolicy_def strings_HasPrefix_def parsePolicyAction_def uuid_FromString_def)
  have p: "\<forall>ev \<in> set ?evs. passes agentA1 ev"
    by (simp add: passes_def agentA1_def)
  from handleAckEvents_policy_prefix [of decls0 env0 agentA1 ?evs "[]"] h p
  show ?thesis by simp
qed

text \<open>
  The claim as stated lets every batch of unparseable policy identifiers succeed.
  An event of that kind with the id of another agent makes the batch fail.
\<close>

theorem handleAckEvents_policy_prefix_counterexample:
  "strings_HasPrefix ''policy:bogus'' ''policy:'' \<and>
   \<not> snd (parsePolicyAction ''policy:bogus'') \<and>
   u_handleAckEvents decls0 env0 agentA1 [\<lparr>AgentId = ''A2'', ActionId = ''policy:bogus''\<rparr>] [] =
     (Some ErrEventAgentIdMismatch, [])"
  by (simp add: u_handleAckEvents_def agentA1_def strings_HasPrefix_def parsePolicyAction_def)

text \<open>
  Claim C7.  For an ordinary event that the loop reaches (it passes the integrity
  check and has no policy prefix), resolution probes the cache first.  On a hit
  the loop goes on after the probe alone, without a store read.  On a miss it
  issues one point read of the store, for the saved-object type of agent actions
  and the event's action id, and goes on with the action read.  When that read
  fails, its error is the result of the loop, and of the whole batch whatever
  events follow: nothing after the failed read is done.
\<close>

theorem handleAckEvents_resolution:
  "passes agent ev \<Longrightarrow> \<not> isPolicy ev \<Longrightarrow>
   (GetAction e tr (ActionId ev) = Some action \<longrightarrow>
      handleAckEvents_loop d e agent (ev # events) m pa tr =
        handleAckEvents_loop d e agent events (addAction m action) pa
          (tr @ [CacheGetAction (ActionId ev)])) \<and>
   (GetAction e tr (ActionId ev) = None \<and>
    Read e (tr @ [CacheGetAction (ActionId ev)]) (AGENT_ACTION_SAVED_OBJECT_TYPE d) (ActionId ev) = Inr action \<longrightarrow>
      handleAckEvents_loop d e agent (ev # events) m pa tr =
        handleAckEvents_loop d e agent events (addAction m action) pa
          (tr @ [CacheGetAction (ActionId ev),
                 StoreRead (AGENT_ACTION_SAVED_OBJECT_TYPE d) (ActionId ev)])) \<and>
   (GetAction e tr (ActionId ev) = None \<and>
    Read e (tr @ [CacheGetAction (ActionId ev)]) (AGENT_ACTION_SAVED_OBJECT_TYPE d) (ActionId ev) = Inl err \<longrightarrow>
      handleAckEvents_loop d e agent (ev # events) m pa tr =
        (Inl err, tr @ [CacheGetAction (ActionId ev),
                        StoreRead (AGENT_ACTION_SAVED_OBJECT_TYPE d) (ActionId ev)]) \<and>
      (handleAckEvents_loop d e agent before Map.empty [] tr0 = (Inr (m, pa), tr) \<longrightarrow>
         u_handleAckEvents d e agent (before @ ev # events) tr0 =
           (Some err, tr @ [CacheGetAction (ActionId ev),
                            StoreRead (AGENT_ACTION_SAVED_OBJECT_TYPE d) (ActionId ev)])))"
proof -
  assume p: "passes agent ev" and np: "\<not> isPolicy ev"
  let ?T = "AGENT_ACTION_SAVED_OBJECT_TYPE d"
  note step = ackLoop_step [of d e agent ev events m pa tr]
  have hit: "GetAction e tr (ActionId ev) = Some action \<longrightarrow>
      handleAckEvents_loop d e agent (ev # events) m pa tr =
        handleAckEvents_loop d e agent events (addAction m action) pa
          (tr @ [CacheGetAction (ActionId ev)])"
    using p np by (simp add: step del: handleAckEvents_loop.simps)
  have miss: "GetAction e tr (ActionId ev) = None \<and>
    Read e (tr @ [CacheGetAction (ActionId ev)]) ?T (ActionId ev) = Inr action \<longrightarrow>
      handleAckEvents_loop d e agent (ev # events) m pa tr =
        handleAckEvents_loop d e agent events (addAction m action) pa
          (tr @ [CacheGetAction (ActionId ev), StoreRead ?T (ActionId ev)])"
    using p np by (simp add: step del: handleAckEvents_loop.simps)
  have fail: "handleAckEvents_loop d e agent (ev # events) m pa tr =
        (Inl err, tr @ [CacheGetAction (ActionId ev), StoreRead ?T (ActionId ev)])"
    if "GetAction e tr (ActionId ev) = None"
      "Read e (tr @ [CacheGetAction (ActionId ev)]) ?T (ActionId ev) = Inl err"
    using p np that by (simp add: step del: handleAckEvents_loop.simps)
  have batch: "u_handleAckEvents d e agent (before @ ev # events) tr0 =
           (Some err, tr @ [CacheGetAction (ActionId ev), StoreRead ?T (ActionId ev)])"
    if "GetAction e tr (ActionId ev) = None"
      "Read e (tr @ [CacheGetAction (ActionId ev)]) ?T (ActionId ev) = Inl err"
      "handleAckEvents_loop d e agent before Map.empty [] tr0 = (Inr (m, pa), tr)"
  proof -
    have "handleAckEvents_loop d e agent (before @ ev # events) Map.empty [] tr0 =
        (Inl err, tr @ [CacheGetAction (ActionId ev), StoreRead ?T (ActionId ev)])"
      by (simp add: ackLoop_append that(3) fail [OF that(1,2)] del: handleAckEvents_loop.simps)
    then show ?thesis by (rule handleAckEvents_Inl)
  qed
  from hit miss fail batch show ?thesis by blast
qed

text \<open>
  One ordinary event under a cache that hits, a store that finds the action, and a
  store that does not; in the last batch a valid policy acknowledgment follows and
  is not applied.
\<close>

theorem handleAckEvents_resolution_witness:
  "u_handleAckEvents decls0 envCached agentA1 [\<lparr>AgentId = ''A1'', ActionId = ''a1''\<rparr>] [] =
     (None, [CacheGetAction ''a1'']) \<and>
   u_handleAckEvents decls0 envStored agentA1 [\<lparr>AgentId = ''A1'', ActionId = ''a1''\<rparr>] [] =
     (None, [CacheGetAction ''a1'', StoreRead ''fleet-agent-actions'' ''a1'']) \<and>
   u_handleAckEvents decls0 env0 agentA1
     [\<lparr>AgentId = ''A1'', ActionId = ''a1''\<rparr>, \<lparr>AgentId = ''A1'', ActionId = ''policy:f47ac10b-58cc-4372-a567-0e02b2c3d479:3:5''\<rparr>] [] =
     (Some (OtherError ''not found''), [CacheGetAction ''a1'', StoreRead ''fleet-agent-actions'' ''a1''])"
proof -
  let ?ev = "\<lparr>AgentId = ''A1'', ActionId = ''a1''\<rparr>"
  let ?act1 = "\<lparr>Id_Action = ''a1'', Type = ''POLICY_REASSIGN''\<rparr>"
  let ?act2 = "\<lparr>Id_Action = ''a1'', Type = ''UPGRADE''\<rparr>"
  have p: "passes agentA1 ?ev" by (simp add: passes_def agentA1_def)
  have np: "\<not> isPolicy ?ev" by (simp add: isPolicy_def strings_HasPrefix_def)
  from handleAckEvents_resolution [OF p np, where e = envCached and tr = "[]" and action = ?act1
      and d = decls0 and events = "[]" and m = Map.empty and pa = "[]"]
  have 1: "handleAckEvents_loop decls0 envCached agentA1 [?ev] Map.empty [] [] =
      (Inr (addAction Map.empty ?act1, []), [CacheGetAction ''a1''])"
    by (simp add: envCached_def env0_def)
  from handleAckEvents_resolution [OF p np, where e = envStored and tr = "[]" and action = ?act2
      and d = decls0 and events = "[]" and m = Map.empty and pa = "[]"]
  have 2: "handleAckEvents_loop decls0 envStored agentA1 [?ev] Map.empty [] [] =
      (Inr (addAction Map.empty ?act2, []), [CacheGetAction ''a1'', StoreRead ''fleet-agent-actions'' ''a1''])"
    by (simp add: envStored_def env0_def decls0_def)
  from handleAckEvents_resolution [OF p np, where e = env0 and tr = "[]" and err = "OtherError ''not found''"
      and d = decls0 and m = Map.empty and pa = "[]" and before = "[]" and tr0 = "[]"
      and events = "[\<lparr>AgentId = ''A1'', ActionId = ''policy:f47ac10b-58cc-4372-a567-0e02b2c3d479:3:5''\<rparr>]"]
  have 3: "u_handleAckEvents decls0 env0 agentA1
     [?ev, \<lparr>AgentId = ''A1'', ActionId = ''policy:f47ac10b-58cc-4372-a567-0e02b2c3d479:3:5''\<rparr>] [] =
     (Some (OtherError ''not found''), [CacheGetAction ''a1'', StoreRead ''fleet-agent-actions'' ''a1''])"
    by (simp add: env0_def decls0_def)
  from 1 2 3 show ?thesis by (simp add: handleAckEvents_Inr)
qed

section \<open>The codec: lemmas\<close>

text \<open>
  Splitting at a separator: a text without it is one piece, and the first
  occurrence cuts off the first piece.
\<close>

lemma split_no_sep: "sep \<notin> set s \<Longrightarrow> strings_Split s sep = [s]"
  by (induction s) auto

lemma split_nonempty: "strings_Split s sep \<noteq> []"
  by (induction s) (auto split: list.splits)

lemma split_cons: "sep \<notin> set s0 \<Longrightarrow> strings_Split (s0 @ sep # rest) sep = s0 # strings_Split rest sep"
  by (induction s0) auto

text \<open>The pieces have no separator, and joined by it they give the text back.\<close>

lemma split_pieces: "\<forall>p \<in> set (strings_Split s sep). sep \<notin> set p"
  by (induction s) (auto split: list.splits)

lemma split_join: "join (strings_Split s sep) sep = s"
proof (induction s)
  case Nil
  show ?case by simp
next
  case (Cons c cs)
  show ?case
  proof (cases "c = sep")
    case True
    then show ?thesis using Cons split_nonempty [of cs sep]
      by (cases "strings_Split cs sep") auto
  next
    case False
    then show ?thesis using Cons split_nonempty [of cs sep]
      by (cases "strings_Split cs sep"; cases "tl (strings_Split cs sep)") auto
  qed
qed

lemma split4:
  "strings_Split s sep = [s0, s1, s2, s3] \<longleftrightarrow>
     s = s0 @ sep # s1 @ sep # s2 @ sep # s3 \<and> sep \<notin> set s0 \<and> sep \<notin> set s1 \<and> sep \<notin> set s2 \<and> sep \<notin> set s3"
proof
  assume a: "strings_Split s sep = [s0, s1, s2, s3]"
  from split_join [of s sep] a have "s = s0 @ sep # s1 @ sep # s2 @ sep # s3" by simp
  moreover from split_pieces [of s sep] a
  have "sep \<notin> set s0 \<and> sep \<notin> set s1 \<and> sep \<notin> set s2 \<and> sep \<notin> set s3" by simp
  ultimately show "s = s0 @ sep # s1 @ sep # s2 @ sep # s3 \<and> sep \<notin> set s0 \<and> sep \<notin> set s1 \<and> sep \<notin> set s2 \<and> sep \<notin> set s3"
    by simp
next
  assume "s = s0 @ sep # s1 @ sep # s2 @ sep # s3 \<and> sep \<notin> set s0 \<and> sep \<notin> set s1 \<and> sep \<notin> set s2 \<and> sep \<notin> set s3"
  then show "strings_Split s sep = [s0, s1, s2, s3]"
    by (simp add: split_cons split_no_sep)
qed

text \<open>
  \<open>Atoi\<close> succeeds exactly on the texts that denote a 64-bit signed integer, and
  its result, read as a signed number, is the integer denoted.
\<close>

lemma digits_eq:
  "digits ds n =
     (if list_all isDigit ds then Some (foldl (\<lambda>n c. n * 10 + (of_char c - 48)) n ds) else None)"
  by (induction ds arbitrary: n) simp_all

lemma digits_decimal:
  "digits ds 0 = (if list_all isDigit ds then Some (decimal ds) else None)"
  by (simp add: digits_eq decimal_def)

lemma sint_word_of_int64:
  "- (2 ^ 63) \<le> v \<Longrightarrow> v < 2 ^ 63 \<Longrightarrow> sint (word_of_int v :: int64) = v"
  by (simp add: sint_sbintrunc' signed_take_bit_int_eq_self)

lemma sint_range64: "- (2 ^ 63) \<le> sint (w :: int64) \<and> sint w < 2 ^ 63"
  using sint_ge [of w] sint_lt [of w] by simp

lemma not_digit_sign: "\<not> isDigit (CHR ''+'')" "\<not> isDigit (CHR ''-'')"
  by (simp_all add: isDigit_def)

lemma Atoi_denotes_value:
  assumes "denotes s v"
  shows "Atoi s = Inr (word_of_int v)"
proof -
  from assms obtain ds where ne: "ds \<noteq> []" and dg: "list_all isDigit ds"
    and form: "s = ds \<and> v = int (decimal ds) \<or>
               s = CHR ''+'' # ds \<and> v = int (decimal ds) \<or>
               s = CHR ''-'' # ds \<and> v = - int (decimal ds)"
    and r: "- (2 ^ 63) \<le> v" "v < 2 ^ 63"
    unfolding denotes_def by blast
  from ne obtain c cs where ds: "ds = c # cs" by (cases ds) auto
  with dg have c: "c \<noteq> CHR ''+''" "c \<noteq> CHR ''-''" using not_digit_sign by auto
  from form show ?thesis
  proof (elim disjE)
    assume "s = ds \<and> v = int (decimal ds)"
    with ds c dg r show ?thesis
      by (simp add: Atoi_def digits_decimal Let_def del: digits.simps)
  next
    assume "s = CHR ''+'' # ds \<and> v = int (decimal ds)"
    with ne dg r show ?thesis
      by (simp add: Atoi_def digits_decimal Let_def del: digits.simps)
  next
    assume "s = CHR ''-'' # ds \<and> v = - int (decimal ds)"
    with ne dg r show ?thesis
      by (simp add: Atoi_def digits_decimal Let_def del: digits.simps)
  qed
qed

lemma Atoi_Inr_denotes:
  assumes "Atoi s = Inr w"
  shows "denotes s (sint w)"
proof -
  from assms obtain c cs where s: "s = c # cs" by (cases s) (auto simp: Atoi_def)
  let ?ds = "if c = CHR ''+'' \<or> c = CHR ''-'' then cs else s"
  from assms s have ne: "?ds \<noteq> []"
    by (auto simp: Atoi_def Let_def split: if_splits)
  from assms s have dg: "list_all isDigit ?ds"
    by (auto simp add: Atoi_def Let_def digits_decimal simp del: digits.simps split: if_splits)
  show ?thesis
  proof (cases "c = CHR ''-''")
    case True
    with assms s dg have n: "decimal cs \<le> 2 ^ 63" and w: "w = word_of_int (- int (decimal cs))"
      by (auto simp add: Atoi_def Let_def digits_decimal simp del: digits.simps split: if_splits)
    from n have r: "- (2 ^ 63) \<le> - int (decimal cs)" "- int (decimal cs) < 2 ^ 63"
      by (auto simp: nat_le_iff le_nat_iff) 
    from sint_word_of_int64 [OF r] w have "sint w = - int (decimal cs)" by simp
    with True s ne dg r show ?thesis by (auto simp: denotes_def)
  next
    case False
    with assms s dg have n: "decimal ?ds < 2 ^ 63" and w: "w = word_of_int (int (decimal ?ds))"
      by (auto simp add: Atoi_def Let_def digits_decimal simp del: digits.simps split: if_splits)
    from n have r: "- (2 ^ 63) \<le> int (decimal ?ds)" "int (decimal ?ds) < 2 ^ 63"
      by (auto simp: nat_less_iff zless_nat_eq_int_zless) 
    from sint_word_of_int64 [OF r] w have v: "sint w = int (decimal ?ds)" by simp
    show ?thesis
    proof (cases "c = CHR ''+''")
      case True
      with s ne dg r v show ?thesis by (auto simp: denotes_def)
    next
      case plus: False
      with False s ne dg r v show ?thesis by (auto simp: denotes_def)
    qed
  qed
qed

lemma Atoi_iff: "Atoi s = Inr w \<longleftrightarrow> denotes s (sint w)"
proof
  assume "Atoi s = Inr w" then show "denotes s (sint w)" by (rule Atoi_Inr_denotes)
next
  assume "denotes s (sint w)"
  from Atoi_denotes_value [OF this] show "Atoi s = Inr w" by simp
qed

text \<open>
  The codec succeeds exactly when the identifier splits into the tag and three
  more pieces that the three parsers accept, and then returns their results.
\<close>

lemma parse_ok_iff:
  "snd (parsePolicyAction actionId) \<longleftrightarrow>
     (\<exists>u r c. strings_Split actionId (CHR '':'') = [''policy'', u, r, c] \<and>
        (\<exists>x. uuid_FromString u = Inr x) \<and> (\<exists>rv. Atoi r = Inr rv) \<and> (\<exists>cv. Atoi c = Inr cv))"
proof
  assume ok: "snd (parsePolicyAction actionId)"
  let ?sp = "strings_Split actionId (CHR '':'')"
  from ok have len: "length ?sp = 4"
    by (auto simp: parsePolicyAction_def Let_def split: if_splits)
  then obtain s0 u r c where sp: "?sp = [s0, u, r, c]"
    by (cases ?sp; cases "tl ?sp"; cases "tl (tl ?sp)"; cases "tl (tl (tl ?sp))") auto
  from ok sp show "\<exists>u r c. ?sp = [''policy'', u, r, c] \<and>
        (\<exists>x. uuid_FromString u = Inr x) \<and> (\<exists>rv. Atoi r = Inr rv) \<and> (\<exists>cv. Atoi c = Inr cv)"
    by (auto simp: parsePolicyAction_def Let_def split: if_splits sum.splits)
next
  assume "\<exists>u r c. strings_Split actionId (CHR '':'') = [''policy'', u, r, c] \<and>
        (\<exists>x. uuid_FromString u = Inr x) \<and> (\<exists>rv. Atoi r = Inr rv) \<and> (\<exists>cv. Atoi c = Inr cv)"
  then show "snd (parsePolicyAction actionId)"
    by (auto simp: parsePolicyAction_def Let_def)
qed

lemma parse_value:
  "strings_Split actionId (CHR '':'') = [''policy'', u, r, c] \<Longrightarrow> uuid_FromString u = Inr x \<Longrightarrow>
   Atoi r = Inr rv \<Longrightarrow> Atoi c = Inr cv \<Longrightarrow>
     parsePolicyAction actionId = (\<lparr>policyId = u, revIdx = rv, coordIdx = cv\<rparr>, True)"
  by (simp add: parsePolicyAction_def Let_def)

lemma parse_fail: "\<not> snd (parsePolicyAction actionId) \<Longrightarrow> fst (parsePolicyAction actionId) = policyAction_zero"
  by (auto simp: parsePolicyAction_def Let_def split: if_splits sum.splits)

section \<open>The codec: claims\<close>

text \<open>
  Claim C3, as amended.  \<open>parsePolicyAction\<close> succeeds exactly when the
  identifier is the tag \<open>policy\<close> and three more segments, separated by colons and
  free of colons, of which the first is a text that \<open>uuid.FromString\<close> accepts
  (a UUID of any version) and the other two denote 64-bit signed integers in
  decimal.  It then returns the first segment as it stands and the two integers.
  On every other input it returns the zero value and \<open>False\<close>.  It is a function
  of its argument alone.
\<close>

theorem parsePolicyAction_grammar:
  "(snd (parsePolicyAction actionId) \<longleftrightarrow>
      (\<exists>u r c. actionId = ''policy'' @ CHR '':'' # u @ CHR '':'' # r @ CHR '':'' # c \<and>
         CHR '':'' \<notin> set u \<and> CHR '':'' \<notin> set r \<and> CHR '':'' \<notin> set c \<and>
         (\<exists>x. uuid_FromString u = Inr x) \<and> (\<exists>rv. denotes r rv) \<and> (\<exists>cv. denotes c cv))) \<and>
   (actionId = ''policy'' @ CHR '':'' # u @ CHR '':'' # r @ CHR '':'' # c \<and>
    CHR '':'' \<notin> set u \<and> CHR '':'' \<notin> set r \<and> CHR '':'' \<notin> set c \<and>
    uuid_FromString u = Inr x \<and> denotes r rv \<and> denotes c cv \<longrightarrow>
      parsePolicyAction actionId =
        (\<lparr>policyId = u, revIdx = word_of_int rv, coordIdx = word_of_int cv\<rparr>, True) \<and>
      sint (word_of_int rv :: int64) = rv \<and> sint (word_of_int cv :: int64) = cv) \<and>
   (\<not> snd (parsePolicyAction actionId) \<longrightarrow> fst (parsePolicyAction actionId) = policyAction_zero)"
proof (intro conjI impI)
  have pol: "CHR '':'' \<notin> set ''policy''" by simp
  have sp: "strings_Split actionId (CHR '':'') = [''policy'', u, r, c] \<longleftrightarrow>
      actionId = ''policy'' @ CHR '':'' # u @ CHR '':'' # r @ CHR '':'' # c \<and>
      CHR '':'' \<notin> set u \<and> CHR '':'' \<notin> set r \<and> CHR '':'' \<notin> set c" for u r c
    using pol by (simp only: split4) blast
  show "snd (parsePolicyAction actionId) \<longleftrightarrow>
      (\<exists>u r c. actionId = ''policy'' @ CHR '':'' # u @ CHR '':'' # r @ CHR '':'' # c \<and>
         CHR '':'' \<notin> set u \<and> CHR '':'' \<notin> set r \<and> CHR '':'' \<notin> set c \<and>
         (\<exists>x. uuid_FromString u = Inr x) \<and> (\<exists>rv. denotes r rv) \<and> (\<exists>cv. denotes c cv))"
    (is "?L \<longleftrightarrow> ?R")
  proof
    assume ?L
    then obtain u r c x rw cw where
      s: "strings_Split actionId (CHR '':'') = [''policy'', u, r, c]"
      and x: "uuid_FromString u = Inr x" and rw: "Atoi r = Inr rw" and cw: "Atoi c = Inr cw"
      unfolding parse_ok_iff by blast
    from s have f: "actionId = ''policy'' @ CHR '':'' # u @ CHR '':'' # r @ CHR '':'' # c \<and>
      CHR '':'' \<notin> set u \<and> CHR '':'' \<notin> set r \<and> CHR '':'' \<notin> set c"
      using sp [of u r c] by blast
    from rw have "denotes r (sint rw)" by (rule Atoi_Inr_denotes)
    moreover from cw have "denotes c (sint cw)" by (rule Atoi_Inr_denotes)
    ultimately show ?R using f x by blast
  next
    assume ?R
    then obtain u r c x rv cv where
      f: "actionId = ''policy'' @ CHR '':'' # u @ CHR '':'' # r @ CHR '':'' # c \<and>
      CHR '':'' \<notin> set u \<and> CHR '':'' \<notin> set r \<and> CHR '':'' \<notin> set c"
      and x: "uuid_FromString u = Inr x" and rv: "denotes r rv" and cv: "denotes c cv"
      by blast
    from f have s: "strings_Split actionId (CHR '':'') = [''policy'', u, r, c]"
      using sp [of u r c] by blast
    from rv have "Atoi r = Inr (word_of_int rv)" by (rule Atoi_denotes_value)
    moreover from cv have "Atoi c = Inr (word_of_int cv)" by (rule Atoi_denotes_value)
    ultimately show ?L unfolding parse_ok_iff using s x by blast
  qed
  {
    assume a: "actionId = ''policy'' @ CHR '':'' # u @ CHR '':'' # r @ CHR '':'' # c \<and>
      CHR '':'' \<notin> set u \<and> CHR '':'' \<notin> set r \<and> CHR '':'' \<notin> set c \<and>
      uuid_FromString u = Inr x \<and> denotes r rv \<and> denotes c cv"
    then have s: "strings_Split actionId (CHR '':'') = [''policy'', u, r, c]"
      using sp [of u r c] by blast
    from a have at: "Atoi r = Inr (word_of_int rv)" "Atoi c = Inr (word_of_int cv)"
      by (simp_all add: Atoi_denotes_value)
    from a have x: "uuid_FromString u = Inr x" by simp
    from s x at show "parsePolicyAction actionId =
        (\<lparr>policyId = u, revIdx = word_of_int rv, coordIdx = word_of_int cv\<rparr>, True)"
      by (rule parse_value)
    from a have "- (2 ^ 63) \<le> rv" "rv < 2 ^ 63" "- (2 ^ 63) \<le> cv" "cv < 2 ^ 63"
      by (simp_all add: denotes_def)
    then show "sint (word_of_int rv :: int64) = rv" "sint (word_of_int cv :: int64) = cv"
      by (simp_all add: sint_word_of_int64)
  }
  assume "\<not> snd (parsePolicyAction actionId)"
  then show "fst (parsePolicyAction actionId) = policyAction_zero" by (rule parse_fail)
qed

text \<open>A well-formed identifier with a negative coordinator index, and one with too few segments.\<close>

lemma sample_denotes: "denotes ''5'' 5" "denotes ''-2'' (- 2)"
  by (auto simp: denotes_def isDigit_def decimal_def intro: exI [of _ "''5''"] exI [of _ "''2''"])

lemma sample_uuid:
  "uuid_FromString ''6ba7b810-9dad-11d1-80b4-00c04fd430c8'' =
     Inr [0x6b, 0xa7, 0xb8, 0x10, 0x9d, 0xad, 0x11, 0xd1, 0x80, 0xb4, 0x00, 0xc0, 0x4f, 0xd4, 0x30, 0xc8]"
  by (simp add: uuid_FromString_def decodeCanonical_def byteGroups_def fromHexChar_def)

theorem parsePolicyAction_grammar_witness:
  "parsePolicyAction ''policy:6ba7b810-9dad-11d1-80b4-00c04fd430c8:5:-2'' =
     (\<lparr>policyId = ''6ba7b810-9dad-11d1-80b4-00c04fd430c8'', revIdx = 5, coordIdx = - 2\<rparr>, True) \<and>
   fst (parsePolicyAction ''policy:5:2'') = policyAction_zero"
proof -
  have n: "\<not> snd (parsePolicyAction ''policy:5:2'')"
    by (simp add: parsePolicyAction_def)
  have f: "''policy:6ba7b810-9dad-11d1-80b4-00c04fd430c8:5:-2'' =
      ''policy'' @ CHR '':'' # ''6ba7b810-9dad-11d1-80b4-00c04fd430c8'' @ CHR '':'' # ''5'' @ CHR '':'' # ''-2'' \<and>
      CHR '':'' \<notin> set ''6ba7b810-9dad-11d1-80b4-00c04fd430c8'' \<and>
      CHR '':'' \<notin> set ''5'' \<and> CHR '':'' \<notin> set ''-2''"
    by simp
  note g = parsePolicyAction_grammar [of "''policy:6ba7b810-9dad-11d1-80b4-00c04fd430c8:5:-2''"
      "''6ba7b810-9dad-11d1-80b4-00c04fd430c8''" "''5''" "''-2''" _ 5 "- 2"]
  from g [THEN conjunct2, THEN conjunct1] f sample_uuid sample_denotes
  have "parsePolicyAction ''policy:6ba7b810-9dad-11d1-80b4-00c04fd430c8:5:-2'' =
      (\<lparr>policyId = ''6ba7b810-9dad-11d1-80b4-00c04fd430c8'', revIdx = word_of_int 5,
        coordIdx = word_of_int (- 2)\<rparr>, True)"
    by blast
  moreover from parsePolicyAction_grammar [of "''policy:5:2''", THEN conjunct2, THEN conjunct2] n
  have "fst (parsePolicyAction ''policy:5:2'') = policyAction_zero" by blast
  ultimately show ?thesis by simp
qed

text \<open>
  The claim as stated asks for a UUID of version 4.  The identifier below parses,
  and its policy segment is a UUID of version 1.
\<close>

theorem parsePolicyAction_grammar_counterexample:
  "snd (parsePolicyAction ''policy:6ba7b810-9dad-11d1-80b4-00c04fd430c8:5:2'') \<and>
   \<not> isUUIDv4 ''6ba7b810-9dad-11d1-80b4-00c04fd430c8''"
  by (simp add: parse_defs isUUIDv4_def Version_def)

section \<open>The HTTP handler: claims\<close>

text \<open>
  Claim C9, as amended.  When the processing of a request ends with an error, the
  handler answers through \<open>http.Error\<close> with status 400 and the text of the
  error.  When the error is \<open>context.Canceled\<close> it writes no log entry before
  that; for every other error it logs the failure first.  So a cancellation is not
  logged, but it is still answered as a failed request.
\<close>

theorem handleAcks_canceled:
  "u_handleAcks d e (ByName ps ''id'') tr = (Some err, tr1) \<Longrightarrow>
     handleAcks d e ps tr =
       (if err = context_Canceled then tr1 @ [HttpError ''context canceled'' 400]
        else tr1 @ [LogError err 400 ''Fail ACK'', HttpError (Error err) 400])"
  by (simp add: handleAcks_def StatusBadRequest_def Let_def)

text \<open>
  A request with one ordinary event whose store read is cancelled: the trace ends
  with the answer 400 and has no log entry of the failure.
\<close>

lemma sample_canceled:
  "u_handleAcks decls0 envCanceled (ByName [(''id'', ''A1'')] ''id'') [] =
     (Some context_Canceled,
      [LogTrace ''{\"events\":[{\"action_id\":\"a1\"}]}'', CacheGetAction ''a1'', StoreRead ''fleet-agent-actions'' ''a1''])"
  by (simp add: u_handleAcks_def u_handleAckEvents_def envCanceled_def env0_def decls0_def
        agentA1_def strings_HasPrefix_def)

theorem handleAcks_canceled_witness:
  "handleAcks decls0 envCanceled [(''id'', ''A1'')] [] =
     [LogTrace ''{\"events\":[{\"action_id\":\"a1\"}]}'', CacheGetAction ''a1'', StoreRead ''fleet-agent-actions'' ''a1'',
      HttpError ''context canceled'' 400]"
  using handleAcks_canceled [OF sample_canceled] by simp

text \<open>
  The claim as stated has the cancellation not reported to the client.  The last
  thing the handler does on that request is the error answer with status 400.
\<close>

theorem handleAcks_canceled_counterexample:
  "fst (u_handleAcks decls0 envCanceled (ByName [(''id'', ''A1'')] ''id'') []) = Some context_Canceled \<and>
   last (handleAcks decls0 envCanceled [(''id'', ''A1'')] []) = HttpError ''context canceled'' StatusBadRequest \<and>
   isHttpError (last (handleAcks decls0 envCanceled [(''id'', ''A1'')] []))"
  by (simp add: handleAcks_def StatusBadRequest_def u_handleAcks_def u_handleAckEvents_def
        envCanceled_def env0_def decls0_def agentA1_def strings_HasPrefix_def)

end
